theory Spec2Isabelle
  imports Main
begin

section \<open>Python values used by orchestrator.py\<close>

text \<open>
  Exceptions of the source are values.  Every constructor below is a subclass of
  Python's \<open>Exception\<close>, so each of them is caught by \<open>except Exception\<close>.
  \<open>TimeoutError\<close> carries the directory and the timeout of its message,
  \<open>HTTPError\<close> the status code, \<open>ValueError\<close> and \<open>RuntimeError\<close> their message.
\<close>

datatype error =
    TimeoutError string int
  | FileNotFoundError
  | OSError
  | ConnectionError
  | HTTPError int
  | JSONDecodeError
  | AttributeError
  | IndexError
  | ZeroDivisionError
  | TypeError
  | ValueError string
  | RuntimeError string

text \<open>
  A JSON document as \<open>json.load\<close> returns it: \<open>dict\<close> (insertion ordered, so an
  association list), \<open>list\<close>, \<open>str\<close>, \<open>int\<close>, \<open>float\<close>, \<open>bool\<close>, \<open>None\<close>.
  A float is kept as mantissa and binary exponent, or as one of the three
  non-finite values that \<open>json.load\<close> accepts.
\<close>

datatype pyfloat = Finite int int | PosInf | NegInf | NaN

datatype json =
    JNull
  | JBool bool
  | JInt int
  | JFloat pyfloat
  | JStr string
  | JArr "json list"
  | JObj "(string \<times> json) list"

subsection \<open>Strings\<close>

text \<open>\<open>str.startswith\<close>.\<close>

fun startswith :: "string \<Rightarrow> string \<Rightarrow> bool" where
  "startswith s [] = True"
| "startswith [] (p # ps) = False"
| "startswith (c # cs) (p # ps) = (c = p \<and> startswith cs ps)"

text \<open>\<open>str.endswith\<close>.\<close>

definition endswith :: "string \<Rightarrow> string \<Rightarrow> bool" where
  "endswith s p = startswith (rev s) (rev p)"

text \<open>\<open>old in s\<close> for strings: \<open>old\<close> occurs in \<open>s\<close> at some position.\<close>

fun occurs :: "string \<Rightarrow> string \<Rightarrow> bool" where
  "occurs old [] = (old = [])"
| "occurs old (c # cs) = (startswith (c # cs) old \<or> occurs old cs)"

text \<open>
  \<open>str.replace(old, new)\<close>: scanning from the left, every occurrence of \<open>old\<close> that
  does not overlap an occurrence already replaced is replaced by \<open>new\<close>.  For the
  empty \<open>old\<close> Python inserts \<open>new\<close> before every character and at the end.
\<close>

function str_replace :: "string \<Rightarrow> string \<Rightarrow> string \<Rightarrow> string" where
  "str_replace old new s =
     (if old = [] then new @ concat (map (\<lambda>c. c # new) s)
      else if s = [] then []
      else if startswith s old then new @ str_replace old new (drop (length old) s)
      else hd s # str_replace old new (tl s))"
  by pat_completeness auto
termination
  by (relation "measure (\<lambda>(old, new, s). length s)") auto

declare str_replace.simps [simp del]

text \<open>\<open>sep.join(parts)\<close>.\<close>

fun str_join :: "string \<Rightarrow> string list \<Rightarrow> string" where
  "str_join sep [] = []"
| "str_join sep [p] = p"
| "str_join sep (p # q # ps) = p @ sep @ str_join sep (q # ps)"

text \<open>\<open>str.lower\<close> on ASCII letters; every other character is kept.\<close>

definition lower_char :: "char \<Rightarrow> char" where
  "lower_char c =
     (let n = (of_char c :: nat) in if 65 \<le> n \<and> n \<le> 90 then char_of (n + 32) else c)"

definition lower :: "string \<Rightarrow> string" where
  "lower s = map lower_char s"

text \<open>
  \<open>str(n)\<close> for an \<open>int\<close>, and the format \<open>{n:02d}\<close>: the decimal digits, padded with
  zeros on the left to a width of two, the sign counting for the width.
\<close>

definition digit_char :: "nat \<Rightarrow> char" where
  "digit_char d = ''0123456789'' ! d"

fun str_nat :: "nat \<Rightarrow> string" where
  "str_nat n = (if n < 10 then [digit_char n] else str_nat (n div 10) @ [digit_char (n mod 10)])"

declare str_nat.simps [simp del]

definition str_int :: "int \<Rightarrow> string" where
  "str_int i = (if i < 0 then CHR ''-'' # str_nat (nat (- i)) else str_nat (nat i))"

definition zfill :: "nat \<Rightarrow> string \<Rightarrow> string" where
  "zfill width ds = replicate (width - length ds) CHR ''0'' @ ds"

definition format_02d :: "int \<Rightarrow> string" where
  "format_02d i =
     (if i < 0 then CHR ''-'' # zfill 1 (str_nat (nat (- i))) else zfill 2 (str_nat (nat i)))"

subsection \<open>Lists and integers\<close>

text \<open>\<open>a % b\<close> on \<open>int\<close>: the result has the sign of \<open>b\<close>; \<open>b = 0\<close> raises.\<close>

definition py_mod :: "int \<Rightarrow> int \<Rightarrow> error + int" where
  "py_mod a b = (if b = 0 then Inl ZeroDivisionError else Inr (a mod b))"

text \<open>\<open>xs[i]\<close>: a negative index counts from the end, an index out of range raises.\<close>

definition py_index :: "'a list \<Rightarrow> int \<Rightarrow> error + 'a" where
  "py_index xs i =
     (if i < - int (length xs) \<or> int (length xs) \<le> i then Inl IndexError
      else if i < 0 then Inr (xs ! nat (int (length xs) + i))
      else Inr (xs ! nat i))"

text \<open>\<open>xs[:n]\<close>: a negative bound counts from the end; no bound raises.\<close>

definition py_slice_to :: "'a list \<Rightarrow> int \<Rightarrow> 'a list" where
  "py_slice_to xs n = (if 0 \<le> n then take (nat n) xs else take (nat (int (length xs) + n)) xs)"

text \<open>\<open>[x] * k\<close>: empty for \<open>k \<le> 0\<close>.\<close>

definition py_repeat :: "'a \<Rightarrow> int \<Rightarrow> 'a list" where
  "py_repeat x k = replicate (nat k) x"

subsection \<open>Paths (posixpath)\<close>

text \<open>\<open>os.path.join(a, b)\<close> and \<open>os.path.dirname(p)\<close> as \<open>posixpath\<close> defines them.\<close>

definition path_join :: "string \<Rightarrow> string \<Rightarrow> string" where
  "path_join a b =
     (if startswith b ''/'' then b
      else if a = [] \<or> endswith a ''/'' then a @ b
      else a @ ''/'' @ b)"

definition rstrip_slash :: "string \<Rightarrow> string" where
  "rstrip_slash s = rev (dropWhile (\<lambda>c. c = CHR ''/'') (rev s))"

definition dirname :: "string \<Rightarrow> string" where
  "dirname p =
     (let hd_part = rev (dropWhile (\<lambda>c. c \<noteq> CHR ''/'') (rev p))
      in if hd_part \<noteq> [] \<and> hd_part \<noteq> replicate (length hd_part) CHR ''/''
         then rstrip_slash hd_part else hd_part)"

section \<open>Workflow templating: \<open>inject_scene_prompt\<close>\<close>

definition PROMPT_PLACEHOLDER :: string where
  "PROMPT_PLACEHOLDER = ''__SCENE_PROMPT__''"

text \<open>
  The nested function \<open>_replace\<close> of \<open>inject_scene_prompt\<close>.  A \<open>dict\<close> is rebuilt
  with the same keys in the same order, a \<open>list\<close> element by element, a \<open>str\<close> is
  replaced, everything else is returned as it is.
\<close>

fun replace_obj :: "string \<Rightarrow> json \<Rightarrow> json" where
  "replace_obj scene_prompt (JObj kvs) =
     JObj (map (\<lambda>kv. (fst kv, replace_obj scene_prompt (snd kv))) kvs)"
| "replace_obj scene_prompt (JArr vs) = JArr (map (replace_obj scene_prompt) vs)"
| "replace_obj scene_prompt (JStr s) = JStr (str_replace PROMPT_PLACEHOLDER scene_prompt s)"
| "replace_obj scene_prompt obj = obj"

definition inject_scene_prompt :: "json \<Rightarrow> string \<Rightarrow> json" where
  "inject_scene_prompt workflow scene_prompt = replace_obj scene_prompt workflow"

text \<open>
  The shape of a document: the document with every string value emptied.  Keys,
  their order, sequence lengths and all other scalars are kept.
\<close>

fun shape :: "json \<Rightarrow> json" where
  "shape (JObj kvs) = JObj (map (\<lambda>kv. (fst kv, shape (snd kv))) kvs)"
| "shape (JArr vs) = JArr (map shape vs)"
| "shape (JStr s) = JStr []"
| "shape v = v"

text \<open>The string values of a document, in document order (keys are not values).\<close>

fun string_values :: "json \<Rightarrow> string list" where
  "string_values (JObj kvs) = concat (map (\<lambda>kv. string_values (snd kv)) kvs)"
| "string_values (JArr vs) = concat (map string_values vs)"
| "string_values (JStr s) = [s]"
| "string_values v = []"

text \<open>
  A string cut at occurrences of a separator: every piece but the last is followed by
  the separator, and the scan from the left meets no occurrence of the separator that
  starts inside a piece.
\<close>

fun cut_at :: "string \<Rightarrow> string list \<Rightarrow> bool" where
  "cut_at sep [] = False"
| "cut_at sep [p] = (\<not> occurs sep p)"
| "cut_at sep (p # q # ps) = (\<not> occurs sep (p @ butlast sep) \<and> cut_at sep (q # ps))"

section \<open>Backend load balancer: the endpoint of a scene\<close>

text \<open>
  The expression \<open>comfy_urls[(idx - 1) % num_instances]\<close> of the dispatch loop of
  \<open>main\<close>, with \<open>num_instances = len(comfy_urls)\<close>.
\<close>

definition select_endpoint :: "int \<Rightarrow> 'a list \<Rightarrow> error + 'a" where
  "select_endpoint idx comfy_urls =
     (let num_instances = int (length comfy_urls)
      in case py_mod (idx - 1) num_instances of
           Inl e \<Rightarrow> Inl e
         | Inr k \<Rightarrow> py_index comfy_urls k)"

section \<open>Scene-count normalisation\<close>

text \<open>
  The end of \<open>call_lmstudio\<close>: pad with the last prompt, or cut to \<open>num_scenes\<close>.
  \<open>scene_prompts[-1]\<close> raises on the empty list.
\<close>

definition normalize_scene_count :: "string list \<Rightarrow> int \<Rightarrow> error + string list" where
  "normalize_scene_count scene_prompts num_scenes =
     (if int (length scene_prompts) < num_scenes then
        (case py_index scene_prompts (- 1) of
           Inl e \<Rightarrow> Inl e
         | Inr last_prompt \<Rightarrow>
             Inr (scene_prompts @ py_repeat last_prompt (num_scenes - int (length scene_prompts))))
      else if int (length scene_prompts) > num_scenes then
        Inr (py_slice_to scene_prompts num_scenes)
      else Inr scene_prompts)"

text \<open>
  The adjustment in \<open>main\<close>, guarded by \<open>args.num_scenes and len(scene_prompts) !=
  args.num_scenes\<close>: a count of zero is falsy and leaves the list as it is.
\<close>

definition adjust_scene_count :: "string list \<Rightarrow> int \<Rightarrow> error + string list" where
  "adjust_scene_count scene_prompts num_scenes =
     (if num_scenes \<noteq> 0 \<and> int (length scene_prompts) \<noteq> num_scenes then
        (if int (length scene_prompts) < num_scenes then
           (case py_index scene_prompts (- 1) of
              Inl e \<Rightarrow> Inl e
            | Inr last_prompt \<Rightarrow>
                Inr (scene_prompts @ py_repeat last_prompt (num_scenes - int (length scene_prompts))))
         else Inr (py_slice_to scene_prompts num_scenes))
      else Inr scene_prompts)"

section \<open>The persisted scene list\<close>

text \<open>
  \<open>json.dump({"scenes": scene_prompts}, f)\<close> followed by \<open>json.load(f)\<close> is taken at the
  level of documents: the file holds the document that was written.
\<close>

definition scenes_document :: "string list \<Rightarrow> json" where
  "scenes_document scene_prompts = JObj [(''scenes'', JArr (map JStr scene_prompts))]"

text \<open>Truth value of a document, as \<open>or\<close> tests it.\<close>

fun truthy :: "json \<Rightarrow> bool" where
  "truthy JNull = False"
| "truthy (JBool b) = b"
| "truthy (JInt i) = (i \<noteq> 0)"
| "truthy (JFloat f) = (case f of Finite m e \<Rightarrow> m \<noteq> 0 | _ \<Rightarrow> True)"
| "truthy (JStr s) = (s \<noteq> [])"
| "truthy (JArr vs) = (vs \<noteq> [])"
| "truthy (JObj kvs) = (kvs \<noteq> [])"

definition py_or :: "json \<Rightarrow> json \<Rightarrow> json" where
  "py_or a b = (if truthy a then a else b)"

text \<open>\<open>d.get(k)\<close>: \<open>None\<close> for a missing key.\<close>

definition dict_get :: "(string \<times> json) list \<Rightarrow> string \<Rightarrow> json" where
  "dict_get kvs k = (case map_of kvs k of None \<Rightarrow> JNull | Some v \<Rightarrow> v)"

text \<open>
  Iterating a document with \<open>for\<close>: a list gives its elements, a dict its keys, a
  string its characters; anything else is not iterable.
\<close>

fun py_iter :: "json \<Rightarrow> error + json list" where
  "py_iter (JArr vs) = Inr vs"
| "py_iter (JObj kvs) = Inr (map (\<lambda>kv. JStr (fst kv)) kvs)"
| "py_iter (JStr s) = Inr (map (\<lambda>c. JStr [c]) s)"
| "py_iter v = Inl TypeError"

text \<open>
  The loading branch of \<open>main\<close>.  \<open>str_of\<close> is Python's \<open>str()\<close> on documents that are
  not strings; on a string \<open>str()\<close> is the identity.
\<close>

definition py_str :: "(json \<Rightarrow> string) \<Rightarrow> json \<Rightarrow> string" where
  "py_str str_of v = (case v of JStr s \<Rightarrow> s | _ \<Rightarrow> str_of v)"

definition scenes_raw :: "json \<Rightarrow> json" where
  "scenes_raw data =
     (case data of
        JObj kvs \<Rightarrow> (case map_of kvs ''scenes'' of Some raw \<Rightarrow> raw | None \<Rightarrow> data)
      | _ \<Rightarrow> data)"

definition scene_prompt_of :: "(json \<Rightarrow> string) \<Rightarrow> json \<Rightarrow> string" where
  "scene_prompt_of str_of s =
     (case s of
        JStr t \<Rightarrow> t
      | JObj kvs \<Rightarrow>
          py_str str_of (py_or (dict_get kvs ''prompt'') (py_or (dict_get kvs ''description'') (JStr [])))
      | _ \<Rightarrow> py_str str_of s)"

definition load_scene_prompts :: "(json \<Rightarrow> string) \<Rightarrow> json \<Rightarrow> error + string list" where
  "load_scene_prompts str_of data =
     (case py_iter (scenes_raw data) of
        Inl e \<Rightarrow> Inl e
      | Inr raw \<Rightarrow> Inr (map (scene_prompt_of str_of) raw))"

section \<open>Assembler: \<open>concat_clips\<close>\<close>

text \<open>
  What the operating system answers: whether \<open>open(path, "w")\<close> succeeds, and what
  \<open>subprocess.run\<close> returns for a command (the exit status, or the exception raised
  when the program cannot be started).
\<close>

record os_calls =
  open_w :: "string \<Rightarrow> error option"
  subprocess_run :: "string list \<Rightarrow> error + int"

text \<open>The files written and the commands handed to \<open>subprocess.run\<close>, oldest first.\<close>

record os_state =
  files :: "string \<rightharpoonup> string"
  spawned :: "string list list"

text \<open>The line \<open>file '<p>'\<close> with its newline, as \<open>f.write\<close> receives it.\<close>

definition manifest_line :: "string \<Rightarrow> string" where
  "manifest_line p = ''file '' @ [CHR 0x27] @ p @ [CHR 0x27]"

definition manifest_entry :: "string \<Rightarrow> string" where
  "manifest_entry p = manifest_line p @ [CHR 0x0A]"

text \<open>The loop \<open>for p in clip_paths: f.write(...)\<close> on the content written so far.\<close>

fun write_manifest :: "string \<Rightarrow> string list \<Rightarrow> string" where
  "write_manifest content [] = content"
| "write_manifest content (p # ps) = write_manifest (content @ manifest_entry p) ps"

definition ffmpeg_cmd :: "string \<Rightarrow> string \<Rightarrow> string list" where
  "ffmpeg_cmd concat_list_path final_output =
     [''ffmpeg'', ''-y'', ''-f'', ''concat'', ''-safe'', ''0'', ''-i'', concat_list_path,
      ''-c'', ''copy'', final_output]"

definition concat_list_path :: "string \<Rightarrow> string" where
  "concat_list_path final_output = path_join (dirname final_output) ''concat_list.txt''"

definition concat_clips ::
  "os_calls \<Rightarrow> os_state \<Rightarrow> string list \<Rightarrow> string \<Rightarrow> (error + unit) \<times> os_state" where
  "concat_clips os st clip_paths final_output =
     (if clip_paths = [] then (Inl (ValueError ''No clips to concatenate.''), st)
      else
        case open_w os (concat_list_path final_output) of
             Some e \<Rightarrow> (Inl e, st)
           | None \<Rightarrow>
               let st1 = st\<lparr>files :=
                           (files st)(concat_list_path final_output \<mapsto> write_manifest [] clip_paths)\<rparr>;
                   cmd = ffmpeg_cmd (concat_list_path final_output) final_output;
                   st2 = st1\<lparr>spawned := spawned st1 @ [cmd]\<rparr>
               in (case subprocess_run os cmd of
                     Inl e \<Rightarrow> (Inl e, st2)
                   | Inr returncode \<Rightarrow>
                       if returncode \<noteq> 0
                       then (Inl (RuntimeError (''ffmpeg failed with code '' @ str_int returncode)), st2)
                       else (Inr (), st2)))"

text \<open>
  The lines of a text file as a reader sees them: pieces ended by a newline, and a
  last piece without one when it is not empty.
\<close>

fun lines_from :: "string \<Rightarrow> string \<Rightarrow> string list" where
  "lines_from cur [] = (if cur = [] then [] else [cur])"
| "lines_from cur (c # cs) =
     (if c = CHR 0x0A then cur # lines_from [] cs else lines_from (cur @ [c]) cs)"

definition file_lines :: "string \<Rightarrow> string list" where
  "file_lines content = lines_from [] content"

section \<open>Completion detector: \<open>list_mp4s\<close> and \<open>wait_for_new_video\<close>\<close>

text \<open>
  The world outside the program, as the program observes it.  Time is counted in
  seconds; \<open>time.sleep\<close> alone advances it, every other statement takes no time.  Each
  field is what a call made at the given instant returns or raises: \<open>os.listdir\<close>,
  \<open>os.path.getmtime\<close>, \<open>os.path.getsize\<close>, \<open>requests.post\<close>, \<open>os.makedirs\<close> and
  \<open>shutil.copy2\<close>.  A modification time is a number; only its order is used.
\<close>

record response =
  status_code :: int
  json_result :: "error + json"

record world =
  listdir :: "nat \<Rightarrow> string \<Rightarrow> error + string list"
  getmtime :: "nat \<Rightarrow> string \<Rightarrow> error + int"
  getsize :: "nat \<Rightarrow> string \<Rightarrow> error + int"
  http_post :: "nat \<Rightarrow> string \<Rightarrow> json \<Rightarrow> error + response"
  makedirs :: "nat \<Rightarrow> string \<Rightarrow> error option"
  copy2 :: "nat \<Rightarrow> string \<Rightarrow> string \<Rightarrow> error option"

definition list_mp4s :: "world \<Rightarrow> nat \<Rightarrow> string \<Rightarrow> error + string list" where
  "list_mp4s w now folder =
     (case listdir w now folder of
        Inl e \<Rightarrow> Inl e
      | Inr names \<Rightarrow> Inr (map (path_join folder) (filter (\<lambda>f. endswith (lower f) ''.mp4'') names)))"

text \<open>
  \<open>max(new_files, key=lambda p: os.path.getmtime(p))\<close>: the key of every element is
  taken in turn, a raise ends the call, and an element replaces the best one so far only
  when its key is greater.  The elements are visited in the order of the listing (Python
  fixes no order for a set).
\<close>

fun max_mtime :: "world \<Rightarrow> nat \<Rightarrow> string \<times> int \<Rightarrow> string list \<Rightarrow> error + string" where
  "max_mtime w now best [] = Inr (fst best)"
| "max_mtime w now best (p # ps) =
     (case getmtime w now p of
        Inl e \<Rightarrow> Inl e
      | Inr m \<Rightarrow> max_mtime w now (if snd best < m then (p, m) else best) ps)"

definition newest :: "world \<Rightarrow> nat \<Rightarrow> string list \<Rightarrow> error + string" where
  "newest w now new_files =
     (case new_files of
        [] \<Rightarrow> Inl (ValueError ''max() arg is an empty sequence'')
      | p # ps \<Rightarrow> (case getmtime w now p of Inl e \<Rightarrow> Inl e | Inr m \<Rightarrow> max_mtime w now (p, m) ps))"

text \<open>\<open>set(list_mp4s(output_dir)) - known_files\<close>, in the order of the listing.\<close>

definition new_files_of :: "string list \<Rightarrow> string set \<Rightarrow> string list" where
  "new_files_of current_files known_files = filter (\<lambda>p. p \<notin> known_files) (remdups current_files)"

text \<open>
  The inner loop \<open>while stable_count < 3\<close>.  It has no exit but the counter and a raise
  of \<open>getsize\<close> other than \<open>FileNotFoundError\<close>, so it may run forever: the value is then
  \<open>None\<close>.  The result is the last size with the time at the exit.
\<close>

partial_function (option) stabilize ::
  "world \<Rightarrow> string \<Rightarrow> int \<Rightarrow> int \<Rightarrow> nat \<Rightarrow> ((error + int) \<times> nat) option" where
  "stabilize w candidate last_size stable_count now =
     (if stable_count < 3 then
        (case getsize w now candidate of
           Inl e \<Rightarrow>
             (if e = FileNotFoundError then stabilize w candidate (- 1) 0 (now + 1)
              else Some (Inl e, now))
         | Inr sz \<Rightarrow>
             (if sz = last_size then stabilize w candidate last_size (stable_count + 1) (now + 1)
              else stabilize w candidate sz 0 (now + 1)))
      else Some (Inr last_size, now))"

declare stabilize.simps [code]

text \<open>
  The outer loop \<open>while time.time() - start < timeout\<close>, and the function: the result is
  the returned path or the exception raised, with the time at the exit.
\<close>

partial_function (option) wait_loop ::
  "world \<Rightarrow> string \<Rightarrow> string set \<Rightarrow> int \<Rightarrow> nat \<Rightarrow> nat \<Rightarrow> ((error + string) \<times> nat) option" where
  "wait_loop w output_dir known_files timeout start now =
     (if int now - int start < timeout then
        (case list_mp4s w now output_dir of
           Inl e \<Rightarrow> Some (Inl e, now)
         | Inr current_files \<Rightarrow>
             (if new_files_of current_files known_files \<noteq> [] then
                (case newest w now (new_files_of current_files known_files) of
                   Inl e \<Rightarrow> Some (Inl e, now)
                 | Inr candidate \<Rightarrow>
                     (case stabilize w candidate (- 1) 0 now of
                        None \<Rightarrow> None
                      | Some (Inl e, t) \<Rightarrow> Some (Inl e, t)
                      | Some (Inr last_size, t) \<Rightarrow> Some (Inr candidate, t)))
              else wait_loop w output_dir known_files timeout start (now + 1)))
      else Some (Inl (TimeoutError output_dir timeout), now))"

declare wait_loop.simps [code]

definition wait_for_new_video ::
  "world \<Rightarrow> string \<Rightarrow> string set \<Rightarrow> int \<Rightarrow> nat \<Rightarrow> ((error + string) \<times> nat) option" where
  "wait_for_new_video w output_dir known_files timeout now =
     wait_loop w output_dir known_files timeout now now"

section \<open>Scene dispatcher: \<open>run_scene_through_comfy\<close>\<close>

text \<open>\<open>resp.ok\<close>: \<open>raise_for_status\<close> raises for the status codes 400 to 599.\<close>

definition response_ok :: "response \<Rightarrow> bool" where
  "response_ok resp = (\<not> (400 \<le> status_code resp \<and> status_code resp < 600))"

text \<open>
  The first half of the \<open>try\<close> block: post the payload, raise for a bad status, decode
  the body and read \<open>prompt_id\<close> and \<open>node_errors\<close> with \<open>data.get\<close>, which only a dict
  has.  The value is the exception raised, if any.
\<close>

definition submit_prompt :: "world \<Rightarrow> nat \<Rightarrow> string \<Rightarrow> json \<Rightarrow> error option" where
  "submit_prompt w now comfy_url scene_workflow =
     (case http_post w now (comfy_url @ ''/prompt'') (JObj [(''prompt'', scene_workflow)]) of
        Inl e \<Rightarrow> Some e
      | Inr resp \<Rightarrow>
          if \<not> response_ok resp then Some (HTTPError (status_code resp))
          else (case json_result resp of
                  Inl e \<Rightarrow> Some e
                | Inr data \<Rightarrow> (case data of JObj kvs \<Rightarrow> None | _ \<Rightarrow> Some AttributeError)))"

definition scene_filename :: "int \<Rightarrow> string" where
  "scene_filename scene_index = ''scene_'' @ format_02d scene_index @ ''.mp4''"

text \<open>
  One pass through the \<open>try\<close> block.  The state is the set \<open>known_files\<close>, which the
  caller shares with every call, and the time; both are returned with the destination
  path or the exception.  \<open>wait_for_new_video\<close> is called with its default timeout.
\<close>

definition attempt_scene ::
  "world \<Rightarrow> int \<Rightarrow> string \<Rightarrow> string \<Rightarrow> json \<Rightarrow> string \<Rightarrow> string \<Rightarrow> string set \<Rightarrow> nat
     \<Rightarrow> ((error + string) \<times> string set \<times> nat) option" where
  "attempt_scene w scene_index scene_prompt comfy_url base_workflow comfy_output_dir output_dir
       known_files now =
     (case submit_prompt w now comfy_url (inject_scene_prompt base_workflow scene_prompt) of
        Some e \<Rightarrow> Some (Inl e, known_files, now)
      | None \<Rightarrow>
          (case wait_for_new_video w comfy_output_dir known_files 900 now of
             None \<Rightarrow> None
           | Some (Inl e, t) \<Rightarrow> Some (Inl e, known_files, t)
           | Some (Inr video_path, t) \<Rightarrow>
               (case makedirs w t output_dir of
                  Some e \<Rightarrow> Some (Inl e, insert video_path known_files, t)
                | None \<Rightarrow>
                    (case copy2 w t video_path (path_join output_dir (scene_filename scene_index)) of
                       Some e \<Rightarrow> Some (Inl e, insert video_path known_files, t)
                     | None \<Rightarrow>
                         Some (Inr (path_join output_dir (scene_filename scene_index)),
                               insert video_path known_files, t)))))"

text \<open>
  The loop \<open>for attempt in range(1, max_retries + 1)\<close> over the attempts still to make.
  An exception of the last attempt is raised again, any other is followed by
  \<open>time.sleep(3)\<close>; after the loop the function raises \<open>RuntimeError\<close>.
\<close>

fun retry_loop ::
  "world \<Rightarrow> int \<Rightarrow> string \<Rightarrow> string \<Rightarrow> json \<Rightarrow> string \<Rightarrow> string \<Rightarrow> int \<Rightarrow> int list
     \<Rightarrow> string set \<Rightarrow> nat \<Rightarrow> ((error + string) \<times> string set \<times> nat) option" where
  "retry_loop w scene_index scene_prompt comfy_url base_workflow comfy_output_dir output_dir
       max_retries [] known_files now =
     Some (Inl (RuntimeError (''Scene '' @ str_int scene_index @ '' failed to render after ''
                              @ str_int max_retries @ '' attempts.'')), known_files, now)"
| "retry_loop w scene_index scene_prompt comfy_url base_workflow comfy_output_dir output_dir
       max_retries (attempt # rest) known_files now =
     (case attempt_scene w scene_index scene_prompt comfy_url base_workflow comfy_output_dir
             output_dir known_files now of
        None \<Rightarrow> None
      | Some (Inr dest_path, known', t) \<Rightarrow> Some (Inr dest_path, known', t)
      | Some (Inl e, known', t) \<Rightarrow>
          if attempt = max_retries then Some (Inl e, known', t)
          else retry_loop w scene_index scene_prompt comfy_url base_workflow comfy_output_dir
                 output_dir max_retries rest known' (t + 3))"

definition run_scene_through_comfy ::
  "world \<Rightarrow> int \<Rightarrow> string \<Rightarrow> string \<Rightarrow> json \<Rightarrow> string \<Rightarrow> string \<Rightarrow> int \<Rightarrow> string set \<Rightarrow> nat
     \<Rightarrow> ((error + string) \<times> string set \<times> nat) option" where
  "run_scene_through_comfy w scene_index scene_prompt comfy_url base_workflow comfy_output_dir
       output_dir max_retries known_files now =
     retry_loop w scene_index scene_prompt comfy_url base_workflow comfy_output_dir output_dir
       max_retries [1..max_retries] known_files now"

text \<open>
  The state after the first \<open>n\<close> attempts of a dispatch have all raised, each followed by
  its sleep; \<open>None\<close> when one of them did not raise or did not return.
\<close>

fun after_failures ::
  "world \<Rightarrow> int \<Rightarrow> string \<Rightarrow> string \<Rightarrow> json \<Rightarrow> string \<Rightarrow> string \<Rightarrow> nat \<Rightarrow> string set \<Rightarrow> nat
     \<Rightarrow> (string set \<times> nat) option" where
  "after_failures w scene_index scene_prompt comfy_url base_workflow comfy_output_dir output_dir
       0 known_files now = Some (known_files, now)"
| "after_failures w scene_index scene_prompt comfy_url base_workflow comfy_output_dir output_dir
       (Suc n) known_files now =
     (case attempt_scene w scene_index scene_prompt comfy_url base_workflow comfy_output_dir
             output_dir known_files now of
        Some (Inl e, known', t) \<Rightarrow>
          after_failures w scene_index scene_prompt comfy_url base_workflow comfy_output_dir
            output_dir n known' (t + 3)
      | _ \<Rightarrow> None)"

section \<open>Notions used in the statements\<close>

text \<open>
  \<open>sizes_plain\<close>: the sizes \<open>os.path.getsize\<close> gives for a path are not negative, so none
  is the initial \<open>last_size = -1\<close>.  \<open>readable_or_missing\<close>: \<open>getsize\<close> on the path raises
  nothing but \<open>FileNotFoundError\<close>.  \<open>never_stable\<close>: no four samples in a row, one second
  apart, give the same size.
\<close>

definition sizes_plain :: "world \<Rightarrow> string \<Rightarrow> bool" where
  "sizes_plain w c = (\<forall>u sz. getsize w u c = Inr sz \<longrightarrow> 0 \<le> sz)"

definition readable_or_missing :: "world \<Rightarrow> string \<Rightarrow> bool" where
  "readable_or_missing w c = (\<forall>u e. getsize w u c = Inl e \<longrightarrow> e = FileNotFoundError)"

definition never_stable :: "world \<Rightarrow> string \<Rightarrow> bool" where
  "never_stable w c = (\<forall>u s. \<exists>k<4. getsize w (u + k) c \<noteq> Inr s)"

text \<open>
  The poll at time \<open>u\<close> is the first one, from \<open>now\<close> on, to see a new file, and
  \<open>candidate\<close> is the file picked there.
\<close>

definition detected_at :: "world \<Rightarrow> string \<Rightarrow> string set \<Rightarrow> nat \<Rightarrow> nat \<Rightarrow> string \<Rightarrow> bool" where
  "detected_at w output_dir known_files now u candidate =
     (now \<le> u
      \<and> (\<forall>v. now \<le> v \<and> v < u \<longrightarrow>
            (\<exists>cur. list_mp4s w v output_dir = Inr cur \<and> new_files_of cur known_files = []))
      \<and> (\<exists>cur. list_mp4s w u output_dir = Inr cur \<and> new_files_of cur known_files \<noteq> []
            \<and> newest w u (new_files_of cur known_files) = Inr candidate))"

text \<open>
  The invariant of the stabilisation loop, entered at time \<open>start\<close>: either nothing has
  been sampled since the last reset, or the last \<open>stable_count + 1\<close> samples all gave
  \<open>last_size\<close>.  And what holds of a result of the loop: a size was sampled four times in a
  row just before the exit, or \<open>getsize\<close> raised the error at the exit.
\<close>

definition stab_inv :: "world \<Rightarrow> string \<Rightarrow> nat \<Rightarrow> int \<Rightarrow> int \<Rightarrow> nat \<Rightarrow> bool" where
  "stab_inv w c start last_size stable_count now =
     (0 \<le> stable_count \<and> start \<le> now \<and>
      ((stable_count = 0 \<and> last_size = - 1) \<or>
       (start + nat stable_count + 1 \<le> now \<and>
        (\<forall>k\<le>nat stable_count. getsize w (now - 1 - k) c = Inr last_size))))"

definition stab_post :: "world \<Rightarrow> string \<Rightarrow> nat \<Rightarrow> nat \<Rightarrow> (error + int) \<times> nat \<Rightarrow> bool" where
  "stab_post w c start now y =
     (now \<le> snd y \<and>
      (case fst y of
         Inr s \<Rightarrow> start + 4 \<le> snd y \<and> (\<forall>k<4. getsize w (snd y - 1 - k) c = Inr s)
       | Inl e \<Rightarrow> e \<noteq> FileNotFoundError \<and> getsize w (snd y) c = Inl e))"

text \<open>
  A world for the examples.  The watch directory always lists \<open>F.mp4\<close>, \<open>notes.txt\<close> (the
  most recently modified entry) and \<open>old.MP4\<close>; the size of a file at a time and the outcome
  of a copy are parameters; the backend answers 500 before time 3, refuses the connection
  before time 6 and accepts the job from then on.
\<close>

definition sample_world :: "(nat \<Rightarrow> error + int) \<Rightarrow> error option \<Rightarrow> world" where
  "sample_world sizes copy_result =
     \<lparr>listdir = (\<lambda>t d. Inr [''F.mp4'', ''notes.txt'', ''old.MP4'']),
      getmtime = (\<lambda>t p. Inr (if p = ''out/notes.txt'' then 9 else 1)),
      getsize = (\<lambda>t p. sizes t),
      http_post = (\<lambda>t url payload.
         if t < 3 then Inr \<lparr>status_code = 500, json_result = Inr JNull\<rparr>
         else if t < 6 then Inl ConnectionError
         else Inr \<lparr>status_code = 200, json_result = Inr (JObj [(''prompt_id'', JStr ''abc'')])\<rparr>),
      makedirs = (\<lambda>t d. None),
      copy2 = (\<lambda>t src dst. copy_result)\<rparr>"

text \<open>
  An operating system for the examples: every file can be opened for writing, and the
  concatenation process ends with the given exit status.  And the state in which no file
  has been written and no process started.
\<close>

definition sample_os :: "int \<Rightarrow> os_calls" where
  "sample_os returncode = \<lparr>open_w = (\<lambda>p. None), subprocess_run = (\<lambda>cmd. Inr returncode)\<rparr>"

definition no_files :: os_state where
  "no_files = \<lparr>files = Map.empty, spawned = []\<rparr>"

section \<open>Verified properties\<close>

subsection \<open>Workflow templating\<close>

lemma startswith_take: "startswith s p = (take (length p) s = p)"
  by (induction s p rule: startswith.induct) auto

lemma shape_replace_obj: "shape (replace_obj p w) = shape w"
  by (induction p w rule: replace_obj.induct) auto

lemma string_values_replace_obj:
  "string_values (replace_obj p w) = map (str_replace PROMPT_PLACEHOLDER p) (string_values w)"
  by (induction p w rule: replace_obj.induct) (auto simp: map_concat comp_def intro!: arg_cong[where f=concat])

lemma str_replace_absent: "old \<noteq> [] \<Longrightarrow> \<not> occurs old s \<Longrightarrow> str_replace old new s = s"
proof (induction s)
  case Nil
  then show ?case by (subst str_replace.simps) simp
next
  case (Cons c cs)
  then show ?case by (subst str_replace.simps) auto
qed

lemma take_append_long: "n \<le> length a \<Longrightarrow> take n (a @ b) = take n a"
  by simp

lemma str_replace_piece:
  "old \<noteq> [] \<Longrightarrow> \<not> occurs old (p @ butlast old) \<Longrightarrow>
   str_replace old new (p @ old @ rest) = p @ new @ str_replace old new rest"
proof (induction p)
  case Nil
  then show ?case by (subst str_replace.simps) (simp add: startswith_take)
next
  case (Cons c cs)
  have len: "length old \<le> length ((c # cs) @ butlast old)" by simp
  have "\<not> startswith ((c # cs) @ butlast old) old" using Cons.prems(2) by simp
  then have "take (length old) ((c # cs) @ butlast old) \<noteq> old" by (simp add: startswith_take)
  moreover have "(c # cs) @ old @ rest = ((c # cs) @ butlast old) @ (last old # rest)"
    using Cons.prems(1) by simp
  moreover have "take (length old) (((c # cs) @ butlast old) @ (last old # rest))
      = take (length old) ((c # cs) @ butlast old)"
    using len by (rule take_append_long)
  ultimately have "take (length old) ((c # cs) @ old @ rest) \<noteq> old"
    by metis
  then have ns: "\<not> startswith ((c # cs) @ old @ rest) old"
    unfolding startswith_take .
  have "\<not> occurs old (cs @ butlast old)" using Cons.prems(2) by simp
  then have IH: "str_replace old new (cs @ old @ rest) = cs @ new @ str_replace old new rest"
    using Cons.IH Cons.prems(1) by blast
  show ?case using ns IH Cons.prems(1) by (subst str_replace.simps) simp
qed

lemma str_replace_join:
  "old \<noteq> [] \<Longrightarrow> cut_at old parts \<Longrightarrow> str_replace old new (str_join old parts) = str_join new parts"
proof (induction old parts rule: cut_at.induct)
  case (1 sep)
  then show ?case by simp
next
  case (2 sep p)
  then have "\<not> occurs sep p" by simp
  with 2 show ?case using str_replace_absent[of sep p new] by simp
next
  case (3 sep p q ps)
  then have a: "\<not> occurs sep (p @ butlast sep)" and b: "cut_at sep (q # ps)" by simp_all
  have "str_replace sep new (p @ sep @ str_join sep (q # ps)) = p @ new @ str_replace sep new (str_join sep (q # ps))"
    using str_replace_piece[OF 3(2) a] by blast
  then show ?case using 3(1)[OF 3(2) b] by simp
qed


lemma replace_obj_absent:
  "\<forall>s\<in>set (string_values w). \<not> occurs PROMPT_PLACEHOLDER s \<Longrightarrow> replace_obj p w = w"
proof (induction p w rule: replace_obj.induct)
  case (1 scene_prompt kvs)
  have "map (\<lambda>kv. (fst kv, replace_obj scene_prompt (snd kv))) kvs = map (\<lambda>kv. kv) kvs"
  proof (rule map_cong[OF refl])
    fix kv assume m: "kv \<in> set kvs"
    then have "\<forall>s\<in>set (string_values (snd kv)). \<not> occurs PROMPT_PLACEHOLDER s"
      using "1.prems" by auto
    then show "(fst kv, replace_obj scene_prompt (snd kv)) = kv"
      using "1.IH"[OF m] by simp
  qed
  then show ?case by simp
next
  case (2 scene_prompt vs)
  have "map (replace_obj scene_prompt) vs = map (\<lambda>v. v) vs"
  proof (rule map_cong[OF refl])
    fix v assume m: "v \<in> set vs"
    then have "\<forall>s\<in>set (string_values v). \<not> occurs PROMPT_PLACEHOLDER s"
      using "2.prems" by auto
    then show "replace_obj scene_prompt v = v" using "2.IH"[OF m] by simp
  qed
  then show ?case by simp
next
  case (3 scene_prompt s)
  then show ?case by (simp add: str_replace_absent PROMPT_PLACEHOLDER_def)
qed simp_all

text \<open>
  Claim C4.  \<open>inject_scene_prompt\<close> is a function of the workflow and the prompt (the
  model has no state for it to change, as the source builds new dicts, lists and
  strings and assigns to none of its inputs).  For every document and every prompt: the
  result has the shape of the input (same keys in the same order, same sequence lengths,
  every scalar that is not a string unchanged and in place); its string values are the
  input's string values, each passed through \<open>str.replace\<close> of the placeholder by the
  prompt; on a string value cut at its occurrences of the placeholder, that replacement
  puts the prompt in the place of every occurrence; and a document in which no string
  value contains the placeholder is returned unchanged, without error.
\<close>

theorem inject_scene_prompt_shape_and_strings:
  "shape (inject_scene_prompt workflow scene_prompt) = shape workflow
   \<and> string_values (inject_scene_prompt workflow scene_prompt)
       = map (str_replace PROMPT_PLACEHOLDER scene_prompt) (string_values workflow)
   \<and> (\<forall>parts. cut_at PROMPT_PLACEHOLDER parts \<longrightarrow>
         str_replace PROMPT_PLACEHOLDER scene_prompt (str_join PROMPT_PLACEHOLDER parts)
           = str_join scene_prompt parts)
   \<and> ((\<forall>s\<in>set (string_values workflow). \<not> occurs PROMPT_PLACEHOLDER s) \<longrightarrow>
         inject_scene_prompt workflow scene_prompt = workflow)"
proof (intro conjI allI impI)
  show "shape (inject_scene_prompt workflow scene_prompt) = shape workflow"
    by (simp add: inject_scene_prompt_def shape_replace_obj)
  show "string_values (inject_scene_prompt workflow scene_prompt)
       = map (str_replace PROMPT_PLACEHOLDER scene_prompt) (string_values workflow)"
    by (simp add: inject_scene_prompt_def string_values_replace_obj)
next
  fix parts
  assume "cut_at PROMPT_PLACEHOLDER parts"
  moreover have "PROMPT_PLACEHOLDER \<noteq> []" by (simp add: PROMPT_PLACEHOLDER_def)
  ultimately show "str_replace PROMPT_PLACEHOLDER scene_prompt (str_join PROMPT_PLACEHOLDER parts)
           = str_join scene_prompt parts"
    by (simp add: str_replace_join)
next
  assume "\<forall>s\<in>set (string_values workflow). \<not> occurs PROMPT_PLACEHOLDER s"
  then show "inject_scene_prompt workflow scene_prompt = workflow"
    by (simp add: inject_scene_prompt_def replace_obj_absent)
qed

theorem inject_scene_prompt_shape_and_strings_witness:
  "cut_at PROMPT_PLACEHOLDER [''a '', '' at dawn, '', '' again'']
   \<and> inject_scene_prompt
        (JObj [(''6'', JObj [(''inputs'', JObj [(''text'', JStr ''a __SCENE_PROMPT__ at dawn, __SCENE_PROMPT__ again''),
                                              (''seed'', JInt 42)])]),
               (''tags'', JArr [JStr ''__SCENE_PROMPT__'', JBool True, JNull])])
        ''robot''
      = JObj [(''6'', JObj [(''inputs'', JObj [(''text'', JStr ''a robot at dawn, robot again''),
                                              (''seed'', JInt 42)])]),
               (''tags'', JArr [JStr ''robot'', JBool True, JNull])]
   \<and> str_replace PROMPT_PLACEHOLDER ''robot'' (str_join PROMPT_PLACEHOLDER [''a '', '' at dawn, '', '' again''])
      = ''a robot at dawn, robot again''
   \<and> inject_scene_prompt (JObj [(''steps'', JInt 20), (''name'', JStr ''wan'')]) ''robot''
      = JObj [(''steps'', JInt 20), (''name'', JStr ''wan'')]"
proof -
  let ?w = "JObj [(''6'', JObj [(''inputs'', JObj [(''text'', JStr ''a __SCENE_PROMPT__ at dawn, __SCENE_PROMPT__ again''),
                                              (''seed'', JInt 42)])]),
               (''tags'', JArr [JStr ''__SCENE_PROMPT__'', JBool True, JNull])]"
  let ?v = "JObj [(''steps'', JInt 20), (''name'', JStr ''wan'')]"
  have c: "cut_at PROMPT_PLACEHOLDER [''a '', '' at dawn, '', '' again'']" by code_simp
  have j: "str_join ''robot'' [''a '', '' at dawn, '', '' again''] = ''a robot at dawn, robot again''"
    by simp
  have e: "inject_scene_prompt ?w ''robot''
      = JObj [(''6'', JObj [(''inputs'', JObj [(''text'', JStr ''a robot at dawn, robot again''),
                                              (''seed'', JInt 42)])]),
               (''tags'', JArr [JStr ''robot'', JBool True, JNull])]" by code_simp
  have n: "\<forall>s\<in>set (string_values ?v). \<not> occurs PROMPT_PLACEHOLDER s" by code_simp
  note t = inject_scene_prompt_shape_and_strings[of ?w "''robot''"]
  note u = inject_scene_prompt_shape_and_strings[of ?v "''robot''"]
  from t c have r: "str_replace PROMPT_PLACEHOLDER ''robot'' (str_join PROMPT_PLACEHOLDER [''a '', '' at dawn, '', '' again''])
      = str_join ''robot'' [''a '', '' at dawn, '', '' again'']" by blast
  from u n have i: "inject_scene_prompt ?v ''robot'' = ?v" by blast
  show ?thesis using c e r j i by simp
qed

subsection \<open>Load balancer, scene count, persisted scenes\<close>

lemma select_endpoint_value:
  "comfy_urls \<noteq> [] \<Longrightarrow>
   select_endpoint idx comfy_urls = Inr (comfy_urls ! nat ((idx - 1) mod int (length comfy_urls)))"
proof -
  assume ne: "comfy_urls \<noteq> []"
  then have pos: "0 < int (length comfy_urls)" by simp
  define k where "k = (idx - 1) mod int (length comfy_urls)"
  have "0 \<le> k" and "k < int (length comfy_urls)"
    using pos by (simp_all add: k_def)
  then have "py_index comfy_urls k = Inr (comfy_urls ! nat k)"
    by (simp add: py_index_def)
  then show ?thesis
    using ne by (simp add: select_endpoint_def py_mod_def k_def)
qed

lemma py_index_last: "xs \<noteq> [] \<Longrightarrow> py_index xs (- 1) = Inr (last xs)"
proof -
  assume ne: "xs \<noteq> []"
  then have "nat (int (length xs) + - 1) = length xs - 1" by (cases xs) simp_all
  moreover have "\<not> int (length xs) \<le> - 1" by simp
  moreover have "\<not> - 1 < - int (length xs)" using ne by (cases xs) simp_all
  ultimately show ?thesis using ne by (simp add: py_index_def last_conv_nth)
qed

lemma slot_inj:
  assumes "1 \<le> i" "i < j" "j \<le> int L"
  shows "nat ((i - 1) mod int L) \<noteq> nat ((j - 1) mod int L)"
proof -
  have "(i - 1) mod int L = i - 1" "(j - 1) mod int L = j - 1" using assms by simp_all
  then show ?thesis using assms by simp
qed

text \<open>
  Claim C7.  For every scene index \<open>idx \<ge> 1\<close> and every non-empty endpoint list of
  length \<open>L\<close> the selection raises nothing and returns the endpoint at position
  \<open>(idx - 1) mod L\<close>, a position of the list.  With \<open>L = 1\<close> this is the single endpoint
  for every scene.  For \<open>n \<le> L\<close> scenes, two different scenes \<open>i < j \<le> n\<close> get different
  positions of the list, hence different endpoints when no address is listed twice.
\<close>

theorem select_endpoint_round_robin:
  "1 \<le> idx \<Longrightarrow> comfy_urls \<noteq> [] \<Longrightarrow>
   select_endpoint idx comfy_urls = Inr (comfy_urls ! nat ((idx - 1) mod int (length comfy_urls)))
   \<and> nat ((idx - 1) mod int (length comfy_urls)) < length comfy_urls
   \<and> (length comfy_urls = 1 \<longrightarrow> select_endpoint idx comfy_urls = Inr (hd comfy_urls))
   \<and> (\<forall>n i j. n \<le> int (length comfy_urls) \<and> 1 \<le> i \<and> i < j \<and> j \<le> n \<longrightarrow>
         nat ((i - 1) mod int (length comfy_urls)) \<noteq> nat ((j - 1) mod int (length comfy_urls))
         \<and> (distinct comfy_urls \<longrightarrow> select_endpoint i comfy_urls \<noteq> select_endpoint j comfy_urls))"
proof (intro conjI allI impI)
  assume ne: "comfy_urls \<noteq> []"
  show "select_endpoint idx comfy_urls = Inr (comfy_urls ! nat ((idx - 1) mod int (length comfy_urls)))"
    using ne by (rule select_endpoint_value)
  show lt: "nat ((idx - 1) mod int (length comfy_urls)) < length comfy_urls"
    using ne by (simp add: nat_less_iff)
  { assume "length comfy_urls = 1"
    then show "select_endpoint idx comfy_urls = Inr (hd comfy_urls)"
      using ne by (simp add: select_endpoint_value hd_conv_nth) }
  { fix n i j
    assume h: "n \<le> int (length comfy_urls) \<and> 1 \<le> i \<and> i < j \<and> j \<le> n"
    then show ineq: "nat ((i - 1) mod int (length comfy_urls)) \<noteq> nat ((j - 1) mod int (length comfy_urls))"
      using slot_inj[of i j "length comfy_urls"] by simp
    assume "distinct comfy_urls"
    moreover have "nat ((i - 1) mod int (length comfy_urls)) < length comfy_urls"
      "nat ((j - 1) mod int (length comfy_urls)) < length comfy_urls"
      using ne by (simp_all add: nat_less_iff)
    ultimately show "select_endpoint i comfy_urls \<noteq> select_endpoint j comfy_urls"
      using ineq ne by (simp add: select_endpoint_value nth_eq_iff_index_eq) }
qed

theorem select_endpoint_round_robin_witness:
  "(1::int) \<le> 5 \<and> [''http://a:8188'', ''http://b:8288'', ''http://c:8388''] \<noteq> []
   \<and> select_endpoint 5 [''http://a:8188'', ''http://b:8288'', ''http://c:8388''] = Inr ''http://b:8288''
   \<and> select_endpoint 7 [''http://a:8188''] = Inr ''http://a:8188''
   \<and> select_endpoint 1 [''http://a:8188'', ''http://b:8288'', ''http://c:8388'']
       \<noteq> select_endpoint 3 [''http://a:8188'', ''http://b:8288'', ''http://c:8388'']"
proof -
  let ?urls = "[''http://a:8188'', ''http://b:8288'', ''http://c:8388'']"
  have a: "(1::int) \<le> 5" and b: "?urls \<noteq> []" by simp_all
  have d: "distinct ?urls" by simp
  have s: "(1::int) \<le> 7" and t: "[''http://a:8188''] \<noteq> []" by simp_all
  note r = select_endpoint_round_robin[OF a b]
  note r1 = select_endpoint_round_robin[OF s t]
  have "select_endpoint 5 ?urls = Inr ''http://b:8288''" using r by simp
  moreover have "select_endpoint 7 [''http://a:8188''] = Inr ''http://a:8188''" using r1 by simp
  moreover have "select_endpoint 1 ?urls \<noteq> select_endpoint 3 ?urls"
  proof -
    from r have "\<forall>n i j. n \<le> int (length ?urls) \<and> 1 \<le> i \<and> i < j \<and> j \<le> n \<longrightarrow>
         nat ((i - 1) mod int (length ?urls)) \<noteq> nat ((j - 1) mod int (length ?urls))
         \<and> (distinct ?urls \<longrightarrow> select_endpoint i ?urls \<noteq> select_endpoint j ?urls)" by blast
    then have "3 \<le> int (length ?urls) \<and> (1::int) \<le> 1 \<and> (1::int) < 3 \<and> (3::int) \<le> 3 \<longrightarrow>
         (distinct ?urls \<longrightarrow> select_endpoint 1 ?urls \<noteq> select_endpoint 3 ?urls)" by blast
    then show ?thesis using d by simp
  qed
  ultimately show ?thesis by simp
qed

lemma normalize_ok:
  assumes "scene_prompts \<noteq> []" "1 \<le> num_scenes"
  shows "normalize_scene_count scene_prompts num_scenes =
     Inr (if int (length scene_prompts) < num_scenes
          then scene_prompts @ replicate (nat (num_scenes - int (length scene_prompts))) (last scene_prompts)
          else take (nat num_scenes) scene_prompts)"
  using assms
  by (auto simp: normalize_scene_count_def py_index_last py_repeat_def py_slice_to_def)

lemma adjust_ok:
  assumes "scene_prompts \<noteq> []" "1 \<le> num_scenes"
  shows "adjust_scene_count scene_prompts num_scenes =
     Inr (if int (length scene_prompts) < num_scenes
          then scene_prompts @ replicate (nat (num_scenes - int (length scene_prompts))) (last scene_prompts)
          else take (nat num_scenes) scene_prompts)"
  using assms
  by (auto simp: adjust_scene_count_def py_index_last py_repeat_def py_slice_to_def)

text \<open>
  Claim C5 as stated, for any target count: with the count \<open>0\<close> the adjustment in
  \<open>main\<close> is skipped by its guard and one prompt stays one prompt; with the count \<open>-1\<close>
  the slice \<open>scene_prompts[:-1]\<close> drops the last of two prompts.  Neither output has the
  length of the target count.
\<close>

theorem scene_count_counterexample:
  "adjust_scene_count [''dawn''] 0 = Inr [''dawn'']
   \<and> normalize_scene_count [''dawn'', ''dusk''] (- 1) = Inr [''dawn'']
   \<and> adjust_scene_count [''dawn'', ''dusk''] (- 1) = Inr [''dawn'']"
  by (simp add: adjust_scene_count_def normalize_scene_count_def py_slice_to_def)

text \<open>
  Claim C5, amended.  For a list of \<open>M \<ge> 1\<close> prompts and a target count \<open>N \<ge> 1\<close>, both
  normalisations (the end of \<open>call_lmstudio\<close> and the adjustment in \<open>main\<close>) raise nothing
  and return the same list of length exactly \<open>N\<close>: for \<open>M < N\<close> the original list followed
  by \<open>N - M\<close> copies of its last entry, for \<open>M > N\<close> its first \<open>N\<close> entries, for \<open>M = N\<close>
  the list itself.
\<close>

theorem scene_count_normalized:
  "scene_prompts \<noteq> [] \<Longrightarrow> 1 \<le> num_scenes \<Longrightarrow>
   (\<exists>out. normalize_scene_count scene_prompts num_scenes = Inr out
      \<and> adjust_scene_count scene_prompts num_scenes = Inr out
      \<and> int (length out) = num_scenes
      \<and> (int (length scene_prompts) < num_scenes \<longrightarrow>
           out = scene_prompts @ replicate (nat (num_scenes - int (length scene_prompts))) (last scene_prompts))
      \<and> (num_scenes < int (length scene_prompts) \<longrightarrow> out = take (nat num_scenes) scene_prompts)
      \<and> (num_scenes = int (length scene_prompts) \<longrightarrow> out = scene_prompts))"
proof -
  assume a: "scene_prompts \<noteq> []" and b: "1 \<le> num_scenes"
  let ?out = "if int (length scene_prompts) < num_scenes
          then scene_prompts @ replicate (nat (num_scenes - int (length scene_prompts))) (last scene_prompts)
          else take (nat num_scenes) scene_prompts"
  have "int (length ?out) = num_scenes" using b by auto
  moreover have "num_scenes = int (length scene_prompts) \<longrightarrow> ?out = scene_prompts" by auto
  ultimately show ?thesis
    using normalize_ok[OF a b] adjust_ok[OF a b] by (intro exI[of _ ?out]) auto
qed

theorem scene_count_normalized_witness:
  "[''dawn'', ''dusk''] \<noteq> [] \<and> (1::int) \<le> 4
   \<and> normalize_scene_count [''dawn'', ''dusk''] 4 = Inr [''dawn'', ''dusk'', ''dusk'', ''dusk'']
   \<and> adjust_scene_count [''dawn'', ''dusk''] 4 = Inr [''dawn'', ''dusk'', ''dusk'', ''dusk'']
   \<and> normalize_scene_count [''dawn'', ''noon'', ''dusk''] 2 = Inr [''dawn'', ''noon'']
   \<and> adjust_scene_count [''dawn'', ''noon'', ''dusk''] 2 = Inr [''dawn'', ''noon'']"
proof -
  have a: "[''dawn'', ''dusk''] \<noteq> []" and b: "(1::int) \<le> 4" by simp_all
  have c: "[''dawn'', ''noon'', ''dusk''] \<noteq> []" and d: "(1::int) \<le> 2" by simp_all
  have e: "replicate (nat (4 - int (length [''dawn'', ''dusk'']))) ''dusk'' = [''dusk'', ''dusk'']"
    by (simp add: numeral_2_eq_2)
  have f: "take (nat 2) [''dawn'', ''noon'', ''dusk''] = [''dawn'', ''noon'']"
    by (simp add: numeral_2_eq_2)
  show ?thesis
    using scene_count_normalized[OF a b] scene_count_normalized[OF c d] e f by auto
qed

text \<open>
  Claim C9.  For every ordered list of prompt strings, the document \<open>{"scenes": [...]}\<close>
  that is persisted loads, through the loading branch of \<open>main\<close>, to exactly that list,
  whatever \<open>str()\<close> does on documents that are not strings.
\<close>

theorem scenes_round_trip:
  "load_scene_prompts str_of (scenes_document scene_prompts) = Inr scene_prompts"
proof -
  have "scenes_raw (scenes_document scene_prompts) = JArr (map JStr scene_prompts)"
    by (simp add: scenes_raw_def scenes_document_def)
  moreover have "map (scene_prompt_of str_of) (map JStr scene_prompts) = scene_prompts"
    by (induction scene_prompts) (simp_all add: scene_prompt_of_def)
  ultimately show ?thesis by (simp add: load_scene_prompts_def)
qed

subsection \<open>Assembler\<close>

lemma write_manifest_concat: "write_manifest content ps = content @ concat (map manifest_entry ps)"
  by (induction ps arbitrary: content) simp_all

lemma lines_from_line:
  "CHR 0x0A \<notin> set l \<Longrightarrow> lines_from cur (l @ CHR 0x0A # rest) = (cur @ l) # lines_from [] rest"
  by (induction l arbitrary: cur) auto

lemma manifest_line_newline: "CHR 0x0A \<in> set (manifest_line p) \<longleftrightarrow> CHR 0x0A \<in> set p"
  by (simp add: manifest_line_def)

lemma file_lines_entries:
  "\<forall>p\<in>set ps. CHR 0x0A \<notin> set p \<Longrightarrow>
   lines_from [] (concat (map manifest_entry ps)) = map manifest_line ps"
proof (induction ps)
  case Nil
  then show ?case by simp
next
  case (Cons p ps)
  have "CHR 0x0A \<notin> set (manifest_line p)" using Cons.prems by (simp add: manifest_line_newline)
  then have "lines_from [] (manifest_line p @ CHR 0x0A # concat (map manifest_entry ps))
      = ([] @ manifest_line p) # lines_from [] (concat (map manifest_entry ps))"
    by (rule lines_from_line)
  moreover have "lines_from [] (concat (map manifest_entry ps)) = map manifest_line ps"
    using Cons by simp
  ultimately show ?case by (simp add: manifest_entry_def[of p])
qed

lemma manifest_entry_text:
  "manifest_entry = (\<lambda>p. ''file '' @ [CHR 0x27] @ p @ [CHR 0x27, CHR 0x0A])"
  by (rule ext) (simp add: manifest_entry_def manifest_line_def)

lemma manifest_line_text: "manifest_line = (\<lambda>p. ''file '' @ [CHR 0x27] @ p @ [CHR 0x27])"
  by (rule ext) (simp add: manifest_line_def)

lemma concat_list_path_text:
  "concat_list_path final_output = path_join (dirname final_output) ''concat_list.txt''"
  by (simp add: concat_list_path_def)

lemma ffmpeg_cmd_text:
  "ffmpeg_cmd (concat_list_path final_output) final_output =
     [''ffmpeg'', ''-y'', ''-f'', ''concat'', ''-safe'', ''0'', ''-i'',
      path_join (dirname final_output) ''concat_list.txt'', ''-c'', ''copy'', final_output]"
  by (simp add: ffmpeg_cmd_def concat_list_path_def)

lemma concat_clips_opened:
  assumes "clip_paths \<noteq> []" and "open_w os (concat_list_path final_output) = None"
  shows "concat_clips os st clip_paths final_output =
     (case subprocess_run os (ffmpeg_cmd (concat_list_path final_output) final_output) of
        Inl e \<Rightarrow> Inl e
      | Inr returncode \<Rightarrow>
          if returncode \<noteq> 0
          then Inl (RuntimeError (''ffmpeg failed with code '' @ str_int returncode))
          else Inr (),
      \<lparr>files = (files st)(concat_list_path final_output \<mapsto> concat (map manifest_entry clip_paths)),
       spawned = spawned st @ [ffmpeg_cmd (concat_list_path final_output) final_output]\<rparr>)"
  using assms
  by (simp add: concat_clips_def Let_def write_manifest_concat split: sum.split)

text \<open>
  Claim C8 as stated: the manifest is to hold exactly one line per clip, each naming the
  clip's path.  The path is written between the quotes as it is, so for the single clip
  whose path is \<open>a\<close>, a newline character and \<open>b.mp4\<close>, the manifest has two lines,
  \<open>file 'a\<close> and \<open>b.mp4'\<close>, and neither names the path; the concatenation then runs.
\<close>

theorem one_line_per_clip_counterexample:
  "file_lines (the (files (snd (concat_clips (sample_os 0) no_files
        [''a'' @ [CHR 0x0A] @ ''b.mp4''] ''out/final_video.mp4'')) ''out/concat_list.txt''))
     = [''file '' @ [CHR 0x27] @ ''a'', ''b.mp4'' @ [CHR 0x27]]
   \<and> fst (concat_clips (sample_os 0) no_files
        [''a'' @ [CHR 0x0A] @ ''b.mp4''] ''out/final_video.mp4'') = Inr ()"
  by code_simp

text \<open>
  Claim C8, amended.  An empty list of clips is rejected with \<open>ValueError\<close> and the state
  is left as it was: nothing is written and no process is started.  For a non-empty list
  whose manifest can be opened, the manifest \<open>concat_list.txt\<close> beside the output holds,
  for each clip in the given order, the text \<open>file '\<close>, the path, \<open>'\<close> and a newline, and
  nothing else; when no path contains a newline character these are exactly one line
  \<open>file '<path>'\<close> per clip.  The one command started is \<open>ffmpeg -y -f concat -safe 0 -i\<close>
  manifest \<open>-c copy\<close> output; an exit status other than zero raises a \<open>RuntimeError\<close> whose
  message carries the status, and the status zero returns normally.
\<close>

theorem concat_clips_contract:
  "concat_clips os st [] final_output = (Inl (ValueError ''No clips to concatenate.''), st)
   \<and> (clip_paths \<noteq> [] \<and> open_w os (path_join (dirname final_output) ''concat_list.txt'') = None \<longrightarrow>
        files (snd (concat_clips os st clip_paths final_output))
            (path_join (dirname final_output) ''concat_list.txt'')
          = Some (concat (map (\<lambda>p. ''file '' @ [CHR 0x27] @ p @ [CHR 0x27, CHR 0x0A]) clip_paths))
        \<and> ((\<forall>p\<in>set clip_paths. CHR 0x0A \<notin> set p) \<longrightarrow>
             file_lines (the (files (snd (concat_clips os st clip_paths final_output))
                 (path_join (dirname final_output) ''concat_list.txt'')))
               = map (\<lambda>p. ''file '' @ [CHR 0x27] @ p @ [CHR 0x27]) clip_paths)
        \<and> spawned (snd (concat_clips os st clip_paths final_output))
             = spawned st @ [[''ffmpeg'', ''-y'', ''-f'', ''concat'', ''-safe'', ''0'', ''-i'',
                   path_join (dirname final_output) ''concat_list.txt'', ''-c'', ''copy'', final_output]]
        \<and> (\<forall>returncode.
              subprocess_run os [''ffmpeg'', ''-y'', ''-f'', ''concat'', ''-safe'', ''0'', ''-i'',
                   path_join (dirname final_output) ''concat_list.txt'', ''-c'', ''copy'', final_output]
                = Inr returncode
              \<and> returncode \<noteq> 0 \<longrightarrow>
              fst (concat_clips os st clip_paths final_output)
                = Inl (RuntimeError (''ffmpeg failed with code '' @ str_int returncode)))
        \<and> (subprocess_run os [''ffmpeg'', ''-y'', ''-f'', ''concat'', ''-safe'', ''0'', ''-i'',
                   path_join (dirname final_output) ''concat_list.txt'', ''-c'', ''copy'', final_output]
                = Inr 0 \<longrightarrow>
              fst (concat_clips os st clip_paths final_output) = Inr ()))"
proof (intro conjI impI allI)
  show "concat_clips os st [] final_output = (Inl (ValueError ''No clips to concatenate.''), st)"
    by (simp add: concat_clips_def)
next
  assume "clip_paths \<noteq> [] \<and> open_w os (path_join (dirname final_output) ''concat_list.txt'') = None"
  then have ne: "clip_paths \<noteq> []" and op: "open_w os (concat_list_path final_output) = None"
    by (simp_all add: concat_list_path_text)
  note run = concat_clips_opened[OF ne op, of st]
  show content: "files (snd (concat_clips os st clip_paths final_output))
            (path_join (dirname final_output) ''concat_list.txt'')
          = Some (concat (map (\<lambda>p. ''file '' @ [CHR 0x27] @ p @ [CHR 0x27, CHR 0x0A]) clip_paths))"
    unfolding run manifest_entry_text concat_list_path_text by simp
  show "spawned (snd (concat_clips os st clip_paths final_output))
             = spawned st @ [[''ffmpeg'', ''-y'', ''-f'', ''concat'', ''-safe'', ''0'', ''-i'',
                   path_join (dirname final_output) ''concat_list.txt'', ''-c'', ''copy'', final_output]]"
    unfolding run ffmpeg_cmd_text by simp
  { fix returncode
    assume "subprocess_run os [''ffmpeg'', ''-y'', ''-f'', ''concat'', ''-safe'', ''0'', ''-i'',
                   path_join (dirname final_output) ''concat_list.txt'', ''-c'', ''copy'', final_output]
                = Inr returncode \<and> returncode \<noteq> 0"
    then show "fst (concat_clips os st clip_paths final_output)
                = Inl (RuntimeError (''ffmpeg failed with code '' @ str_int returncode))"
      unfolding run ffmpeg_cmd_text by simp }
  { assume "subprocess_run os [''ffmpeg'', ''-y'', ''-f'', ''concat'', ''-safe'', ''0'', ''-i'',
                   path_join (dirname final_output) ''concat_list.txt'', ''-c'', ''copy'', final_output]
                = Inr 0"
    then show "fst (concat_clips os st clip_paths final_output) = Inr ()"
      unfolding run ffmpeg_cmd_text by simp }
  { assume nl: "\<forall>p\<in>set clip_paths. CHR 0x0A \<notin> set p"
    have "file_lines (concat (map manifest_entry clip_paths)) = map manifest_line clip_paths"
      unfolding file_lines_def using nl by (rule file_lines_entries)
    then have "file_lines (concat (map (\<lambda>p. ''file '' @ [CHR 0x27] @ p @ [CHR 0x27, CHR 0x0A]) clip_paths))
        = map (\<lambda>p. ''file '' @ [CHR 0x27] @ p @ [CHR 0x27]) clip_paths"
      unfolding manifest_entry_text manifest_line_text .
    then show "file_lines (the (files (snd (concat_clips os st clip_paths final_output))
                 (path_join (dirname final_output) ''concat_list.txt'')))
               = map (\<lambda>p. ''file '' @ [CHR 0x27] @ p @ [CHR 0x27]) clip_paths"
      using content by simp }
qed

theorem concat_clips_contract_witness:
  "[''out/scene_01.mp4'', ''out/scene_02.mp4''] \<noteq> []
   \<and> path_join (dirname ''out/final_video.mp4'') ''concat_list.txt'' = ''out/concat_list.txt''
   \<and> files (snd (concat_clips (sample_os 1) no_files [''out/scene_01.mp4'', ''out/scene_02.mp4'']
          ''out/final_video.mp4'')) ''out/concat_list.txt''
       = Some (''file '' @ [CHR 0x27] @ ''out/scene_01.mp4'' @ [CHR 0x27, CHR 0x0A]
               @ ''file '' @ [CHR 0x27] @ ''out/scene_02.mp4'' @ [CHR 0x27, CHR 0x0A])
   \<and> file_lines (the (files (snd (concat_clips (sample_os 1) no_files
          [''out/scene_01.mp4'', ''out/scene_02.mp4''] ''out/final_video.mp4'')) ''out/concat_list.txt''))
       = [''file '' @ [CHR 0x27] @ ''out/scene_01.mp4'' @ [CHR 0x27],
          ''file '' @ [CHR 0x27] @ ''out/scene_02.mp4'' @ [CHR 0x27]]
   \<and> spawned (snd (concat_clips (sample_os 1) no_files [''out/scene_01.mp4'', ''out/scene_02.mp4'']
          ''out/final_video.mp4''))
       = [[''ffmpeg'', ''-y'', ''-f'', ''concat'', ''-safe'', ''0'', ''-i'', ''out/concat_list.txt'',
           ''-c'', ''copy'', ''out/final_video.mp4'']]
   \<and> fst (concat_clips (sample_os 1) no_files [''out/scene_01.mp4'', ''out/scene_02.mp4'']
          ''out/final_video.mp4'')
       = Inl (RuntimeError ''ffmpeg failed with code 1'')
   \<and> fst (concat_clips (sample_os 0) no_files [''out/scene_01.mp4'', ''out/scene_02.mp4'']
          ''out/final_video.mp4'') = Inr ()"
proof -
  let ?clips = "[''out/scene_01.mp4'', ''out/scene_02.mp4'']"
  let ?cmd = "[''ffmpeg'', ''-y'', ''-f'', ''concat'', ''-safe'', ''0'', ''-i'',
       path_join (dirname ''out/final_video.mp4'') ''concat_list.txt'', ''-c'', ''copy'',
       ''out/final_video.mp4'']"
  have p: "path_join (dirname ''out/final_video.mp4'') ''concat_list.txt'' = ''out/concat_list.txt''"
    by code_simp
  have ne1: "?clips \<noteq> [] \<and> open_w (sample_os 1)
      (path_join (dirname ''out/final_video.mp4'') ''concat_list.txt'') = None"
    by (simp add: sample_os_def)
  have ne0: "?clips \<noteq> [] \<and> open_w (sample_os 0)
      (path_join (dirname ''out/final_video.mp4'') ''concat_list.txt'') = None"
    by (simp add: sample_os_def)
  have nl: "\<forall>p\<in>set ?clips. CHR 0x0A \<notin> set p" by simp
  have rc1: "subprocess_run (sample_os 1) ?cmd = Inr 1 \<and> (1::int) \<noteq> 0" by (simp add: sample_os_def)
  have rc0: "subprocess_run (sample_os 0) ?cmd = Inr 0" by (simp add: sample_os_def)
  have one: "str_int 1 = ''1''" by code_simp
  have sp: "spawned no_files = []" by (simp add: no_files_def)
  note c = concat_clips_contract[of "sample_os 1" no_files "''out/final_video.mp4''" ?clips]
  note c0 = concat_clips_contract[of "sample_os 0" no_files "''out/final_video.mp4''" ?clips]
  from c ne1 have f: "files (snd (concat_clips (sample_os 1) no_files ?clips ''out/final_video.mp4''))
        (path_join (dirname ''out/final_video.mp4'') ''concat_list.txt'')
      = Some (concat (map (\<lambda>p. ''file '' @ [CHR 0x27] @ p @ [CHR 0x27, CHR 0x0A]) ?clips))" by blast
  from c ne1 nl have l: "file_lines (the (files (snd (concat_clips (sample_os 1) no_files ?clips
        ''out/final_video.mp4'')) (path_join (dirname ''out/final_video.mp4'') ''concat_list.txt'')))
      = map (\<lambda>p. ''file '' @ [CHR 0x27] @ p @ [CHR 0x27]) ?clips" by blast
  from c ne1 have s: "spawned (snd (concat_clips (sample_os 1) no_files ?clips ''out/final_video.mp4''))
      = spawned no_files @ [?cmd]" by blast
  from c ne1 rc1 have e: "fst (concat_clips (sample_os 1) no_files ?clips ''out/final_video.mp4'')
      = Inl (RuntimeError (''ffmpeg failed with code '' @ str_int 1))" by blast
  from c0 ne0 rc0 have z: "fst (concat_clips (sample_os 0) no_files ?clips ''out/final_video.mp4'')
      = Inr ()" by blast
  show ?thesis using p f l s e z one sp by simp
qed

subsection \<open>Completion detector\<close>

lemma stab_inv_missing: "stab_inv w c start l s now \<Longrightarrow> stab_inv w c start (- 1) 0 (now + 1)"
  by (simp add: stab_inv_def)

lemma stab_inv_changed:
  "stab_inv w c start l s now \<Longrightarrow> getsize w now c = Inr sz \<Longrightarrow> stab_inv w c start sz 0 (now + 1)"
  by (simp add: stab_inv_def)

lemma stab_inv_same:
  assumes inv: "stab_inv w c start l s now" and g: "getsize w now c = Inr l" and pl: "sizes_plain w c"
  shows "stab_inv w c start l (s + 1) (now + 1)"
proof -
  have nonneg: "0 \<le> l" using g pl by (auto simp: sizes_plain_def)
  then have second: "start + nat s + 1 \<le> now" "\<forall>k\<le>nat s. getsize w (now - 1 - k) c = Inr l"
    using inv by (auto simp: stab_inv_def)
  have s0: "0 \<le> s" using inv by (simp add: stab_inv_def)
  have "getsize w (now + 1 - 1 - k) c = Inr l" if "k \<le> nat (s + 1)" for k
  proof (cases k)
    case 0
    then show ?thesis using g by simp
  next
    case (Suc j)
    then have "j \<le> nat s" using that s0 by simp
    then have "getsize w (now - 1 - j) c = Inr l" using second(2) by blast
    moreover have "now + 1 - 1 - k = now - 1 - j" using Suc second(1) by simp
    ultimately show ?thesis by simp
  qed
  moreover have "start + nat (s + 1) + 1 \<le> now + 1" using second(1) s0 by (simp add: nat_add_distrib)
  ultimately show ?thesis using s0 inv by (simp add: stab_inv_def)
qed

lemma stab_inv_done:
  assumes inv: "stab_inv w c start l s now" and fin: "\<not> s < 3"
  shows "stab_post w c start now (Inr l, now)"
proof -
  have "s \<noteq> 0" using fin by simp
  then have a: "start + nat s + 1 \<le> now" and b: "\<forall>k\<le>nat s. getsize w (now - 1 - k) c = Inr l"
    using inv by (auto simp: stab_inv_def)
  have "3 \<le> nat s" using fin by simp
  then show ?thesis using a b by (simp add: stab_post_def)
qed

lemma stab_post_later: "stab_post w c start (now + 1) y \<Longrightarrow> stab_post w c start now y"
  by (simp add: stab_post_def)

lemma stabilize_result:
  assumes run: "stabilize w c last_size stable_count now = Some y"
    and pl: "sizes_plain w c"
    and inv: "stab_inv w c start last_size stable_count now"
  shows "stab_post w c start now y"
proof -
  have "sizes_plain w c \<longrightarrow> stab_inv w c start last_size stable_count now \<longrightarrow> stab_post w c start now y"
    using run
  proof (rule stabilize.raw_induct[rotated,
      where P = "\<lambda>w c l s now y. sizes_plain w c \<longrightarrow> stab_inv w c start l s now \<longrightarrow> stab_post w c start now y"])
    fix f w c l s now y
    assume IH: "\<And>w c l s now y. f w c l s now = Some y \<Longrightarrow>
        sizes_plain w c \<longrightarrow> stab_inv w c start l s now \<longrightarrow> stab_post w c start now y"
    assume step: "(if s < 3 then
        (case getsize w now c of
           Inl e \<Rightarrow> (if e = FileNotFoundError then f w c (- 1) 0 (now + 1) else Some (Inl e, now))
         | Inr sz \<Rightarrow> (if sz = l then f w c l (s + 1) (now + 1) else f w c sz 0 (now + 1)))
      else Some (Inr l, now)) = Some y"
    show "sizes_plain w c \<longrightarrow> stab_inv w c start l s now \<longrightarrow> stab_post w c start now y"
    proof (intro impI)
      assume pl: "sizes_plain w c" and inv: "stab_inv w c start l s now"
      show "stab_post w c start now y"
      proof (cases "s < 3")
        case False
        then have "y = (Inr l, now)" using step by simp
        then show ?thesis using stab_inv_done[OF inv False] by simp
      next
        case True
        show ?thesis
        proof (cases "getsize w now c")
          case (Inl e)
          show ?thesis
          proof (cases "e = FileNotFoundError")
            case True
            then have "f w c (- 1) 0 (now + 1) = Some y" using step \<open>s < 3\<close> Inl by simp
            then have "stab_post w c start (now + 1) y"
              using IH pl stab_inv_missing[OF inv] by blast
            then show ?thesis by (rule stab_post_later)
          next
            case False
            then have "y = (Inl e, now)" using step \<open>s < 3\<close> Inl by simp
            then show ?thesis using False Inl by (simp add: stab_post_def)
          qed
        next
          case (Inr sz)
          show ?thesis
          proof (cases "sz = l")
            case True
            then have "f w c l (s + 1) (now + 1) = Some y" using step \<open>s < 3\<close> Inr by simp
            moreover have "stab_inv w c start l (s + 1) (now + 1)"
              using stab_inv_same[OF inv _ pl] Inr True by simp
            ultimately have "stab_post w c start (now + 1) y" using IH pl by blast
            then show ?thesis by (rule stab_post_later)
          next
            case False
            then have "f w c sz 0 (now + 1) = Some y" using step \<open>s < 3\<close> Inr by simp
            moreover have "stab_inv w c start sz 0 (now + 1)"
              using stab_inv_changed[OF inv Inr] .
            ultimately have "stab_post w c start (now + 1) y" using IH pl by blast
            then show ?thesis by (rule stab_post_later)
          qed
        qed
      qed
    qed
  qed
  then show ?thesis using pl inv by blast
qed

lemma stab_inv_start: "stab_inv w c now (- 1) 0 now"
  by (simp add: stab_inv_def)

lemma stabilize_four_equal:
  assumes "\<forall>k<4. getsize w (now + k) c = Inr s" and "0 \<le> s"
  shows "stabilize w c (- 1) 0 now = Some (Inr s, now + 4)"
proof -
  have g0: "getsize w now c = Inr s" using assms(1) by (metis add.right_neutral zero_less_numeral)
  have g1: "getsize w (now + 1) c = Inr s" using assms(1)[rule_format, of 1] by simp
  have g2: "getsize w (now + 1 + 1) c = Inr s" using assms(1)[rule_format, of 2] by simp
  have g3: "getsize w (now + 1 + 1 + 1) c = Inr s" using assms(1)[rule_format, of 3] by (simp add: numeral_3_eq_3)
  have ne: "s \<noteq> - 1" using assms(2) by simp
  have "stabilize w c (- 1) 0 now = stabilize w c s 0 (now + 1)"
    using g0 ne by (subst stabilize.simps) simp
  also have "\<dots> = stabilize w c s 1 (now + 1 + 1)"
    using g1 by (subst stabilize.simps) simp
  also have "\<dots> = stabilize w c s 2 (now + 1 + 1 + 1)"
    using g2 by (subst stabilize.simps) simp
  also have "\<dots> = stabilize w c s 3 (now + 1 + 1 + 1 + 1)"
    using g3 by (subst stabilize.simps) simp
  also have "\<dots> = Some (Inr s, now + 1 + 1 + 1 + 1)"
    by (subst stabilize.simps) simp
  finally show ?thesis by simp
qed

lemma stabilize_never:
  assumes pl: "sizes_plain w c" and rd: "readable_or_missing w c" and ns: "never_stable w c"
  shows "stabilize w c (- 1) 0 now = None"
proof (rule ccontr)
  assume "stabilize w c (- 1) 0 now \<noteq> None"
  then obtain y where y: "stabilize w c (- 1) 0 now = Some y" by blast
  have post: "stab_post w c now now y"
    using stabilize_result[OF y pl stab_inv_start] .
  show False
  proof (cases "fst y")
    case (Inl e)
    then have "e \<noteq> FileNotFoundError \<and> getsize w (snd y) c = Inl e"
      using post by (simp add: stab_post_def)
    then show False using rd by (auto simp: readable_or_missing_def)
  next
    case (Inr s)
    then have a: "now + 4 \<le> snd y" and b: "\<forall>k<4. getsize w (snd y - 1 - k) c = Inr s"
      using post by (simp_all add: stab_post_def)
    obtain k where k: "k < 4" "getsize w ((snd y - 4) + k) c \<noteq> Inr s"
      using ns unfolding never_stable_def by blast
    have "(snd y - 4) + k = snd y - 1 - (3 - k)" using a k(1) by simp
    moreover have "3 - k < 4" by simp
    ultimately show False using b k(2) by metis
  qed
qed

lemma max_mtime_mem: "max_mtime w now best ps = Inr c \<Longrightarrow> c = fst best \<or> c \<in> set ps"
  by (induction ps arbitrary: best) (auto split: sum.splits if_splits)

lemma newest_mem: "newest w now ps = Inr c \<Longrightarrow> c \<in> set ps"
  by (auto simp: newest_def split: list.splits sum.splits dest: max_mtime_mem)

lemma set_new_files_of: "set (new_files_of cur known) = set cur - known"
  by (auto simp: new_files_of_def)

lemma startswith_append: "startswith s p \<Longrightarrow> startswith (s @ t) p"
proof -
  assume a: "startswith s p"
  then have t: "take (length p) s = p" by (simp add: startswith_take)
  then have "length (take (length p) s) = length p" by simp
  then have "length p \<le> length s" by simp
  then show ?thesis using t by (simp add: startswith_take)
qed

lemma endswith_append: "endswith b p \<Longrightarrow> endswith (a @ b) p"
  by (simp add: endswith_def startswith_append)

lemma path_join_suffix: "\<exists>a. path_join folder f = a @ f"
  by (simp add: path_join_def)

lemma mp4_path_join: "endswith (lower f) ''.mp4'' \<Longrightarrow> endswith (lower (path_join folder f)) ''.mp4''"
proof -
  assume e: "endswith (lower f) ''.mp4''"
  obtain a where "path_join folder f = a @ f" using path_join_suffix by blast
  then have "lower (path_join folder f) = lower a @ lower f" by (simp add: lower_def)
  then show ?thesis using e by (simp add: endswith_append)
qed

lemma list_mp4s_names:
  "list_mp4s w now folder = Inr cur \<Longrightarrow> p \<in> set cur \<Longrightarrow>
   \<exists>names f. listdir w now folder = Inr names \<and> f \<in> set names \<and> endswith (lower f) ''.mp4''
      \<and> p = path_join folder f"
  by (auto simp: list_mp4s_def split: sum.splits)

lemma wait_loop_returns:
  assumes "wait_loop w d known timeout start now = Some y" and "fst y = Inr p"
  shows "\<exists>u cur s. now \<le> u \<and> int u - int start < timeout \<and> list_mp4s w u d = Inr cur
           \<and> new_files_of cur known \<noteq> [] \<and> newest w u (new_files_of cur known) = Inr p
           \<and> stabilize w p (- 1) 0 u = Some (Inr s, snd y)"
proof -
  have "\<forall>p. fst y = Inr p \<longrightarrow> (\<exists>u cur s. now \<le> u \<and> int u - int start < timeout \<and> list_mp4s w u d = Inr cur
           \<and> new_files_of cur known \<noteq> [] \<and> newest w u (new_files_of cur known) = Inr p
           \<and> stabilize w p (- 1) 0 u = Some (Inr s, snd y))"
    using assms(1)
  proof (rule wait_loop.raw_induct[rotated,
      where P = "\<lambda>w d known timeout start now y. \<forall>p. fst y = Inr p \<longrightarrow>
         (\<exists>u cur s. now \<le> u \<and> int u - int start < timeout \<and> list_mp4s w u d = Inr cur
           \<and> new_files_of cur known \<noteq> [] \<and> newest w u (new_files_of cur known) = Inr p
           \<and> stabilize w p (- 1) 0 u = Some (Inr s, snd y))"])
    fix f :: "world \<Rightarrow> string \<Rightarrow> string set \<Rightarrow> int \<Rightarrow> nat \<Rightarrow> nat \<Rightarrow> ((error + string) \<times> nat) option"
    fix w d known timeout start now y
    assume IH: "\<And>w d known timeout start now y. f w d known timeout start now = Some y \<Longrightarrow>
       \<forall>p. fst y = Inr p \<longrightarrow>
         (\<exists>u cur s. now \<le> u \<and> int u - int start < timeout \<and> list_mp4s w u d = Inr cur
           \<and> new_files_of cur known \<noteq> [] \<and> newest w u (new_files_of cur known) = Inr p
           \<and> stabilize w p (- 1) 0 u = Some (Inr s, snd y))"
    assume step: "(if int now - int start < timeout then
        (case list_mp4s w now d of
           Inl e \<Rightarrow> Some (Inl e, now)
         | Inr current_files \<Rightarrow>
             (if new_files_of current_files known \<noteq> [] then
                (case newest w now (new_files_of current_files known) of
                   Inl e \<Rightarrow> Some (Inl e, now)
                 | Inr candidate \<Rightarrow>
                     (case stabilize w candidate (- 1) 0 now of
                        None \<Rightarrow> None
                      | Some (Inl e, t) \<Rightarrow> Some (Inl e, t)
                      | Some (Inr last_size, t) \<Rightarrow> Some (Inr candidate, t)))
              else f w d known timeout start (now + 1)))
      else Some (Inl (TimeoutError d timeout), now)) = Some y"
    show "\<forall>p. fst y = Inr p \<longrightarrow>
         (\<exists>u cur s. now \<le> u \<and> int u - int start < timeout \<and> list_mp4s w u d = Inr cur
           \<and> new_files_of cur known \<noteq> [] \<and> newest w u (new_files_of cur known) = Inr p
           \<and> stabilize w p (- 1) 0 u = Some (Inr s, snd y))"
    proof (intro allI impI)
      fix p assume p: "fst y = Inr p"
      have in_time: "int now - int start < timeout" using step p by (auto split: if_splits)
      then obtain cur where cur: "list_mp4s w now d = Inr cur"
        using step p by (cases "list_mp4s w now d") auto
      show "\<exists>u cur s. now \<le> u \<and> int u - int start < timeout \<and> list_mp4s w u d = Inr cur
           \<and> new_files_of cur known \<noteq> [] \<and> newest w u (new_files_of cur known) = Inr p
           \<and> stabilize w p (- 1) 0 u = Some (Inr s, snd y)"
      proof (cases "new_files_of cur known \<noteq> []")
        case False
        then have "f w d known timeout start (now + 1) = Some y"
          using step in_time cur by simp
        then obtain u cur' s where "now + 1 \<le> u" "int u - int start < timeout" "list_mp4s w u d = Inr cur'"
           "new_files_of cur' known \<noteq> []" "newest w u (new_files_of cur' known) = Inr p"
           "stabilize w p (- 1) 0 u = Some (Inr s, snd y)"
          using IH p by blast
        then show ?thesis by (intro exI[of _ u] exI[of _ cur'] exI[of _ s]) simp
      next
        case True
        then obtain c where c: "newest w now (new_files_of cur known) = Inr c"
          using step in_time cur p by (cases "newest w now (new_files_of cur known)") auto
        then obtain r t where st: "stabilize w c (- 1) 0 now = Some (r, t)"
          using step in_time cur True by (cases "stabilize w c (- 1) 0 now") auto
        then obtain s where "r = Inr s" "y = (Inr c, t)"
          using step in_time cur True c p by (cases r) auto
        then show ?thesis using in_time cur True c st p
          by (intro exI[of _ now] exI[of _ cur] exI[of _ s]) simp
      qed
    qed
  qed
  then show ?thesis using assms(2) by blast
qed

lemma wait_loop_timeout:
  assumes "\<forall>u. now \<le> u \<and> int u - int start < timeout \<longrightarrow>
             (\<exists>cur. list_mp4s w u d = Inr cur \<and> new_files_of cur known = [])"
    and "start \<le> now"
  shows "wait_loop w d known timeout start now
           = Some (Inl (TimeoutError d timeout), max now (start + nat timeout))"
  using assms
proof (induction "nat (timeout - (int now - int start))" arbitrary: now)
  case 0
  then have "\<not> int now - int start < timeout" by simp
  moreover from this have "max now (start + nat timeout) = now" using 0(3) by simp
  ultimately show ?case by (subst wait_loop.simps) simp
next
  case (Suc n)
  then have lt: "int now - int start < timeout" by simp
  then obtain cur where cur: "list_mp4s w now d = Inr cur" "new_files_of cur known = []"
    using Suc.prems(1) by blast
  have "n = nat (timeout - (int (now + 1) - int start))" using Suc.hyps(2) by simp
  moreover have "\<forall>u. now + 1 \<le> u \<and> int u - int start < timeout \<longrightarrow>
             (\<exists>cur. list_mp4s w u d = Inr cur \<and> new_files_of cur known = [])"
    using Suc.prems(1) by simp
  ultimately have "wait_loop w d known timeout start (now + 1)
           = Some (Inl (TimeoutError d timeout), max (now + 1) (start + nat timeout))"
    using Suc.hyps(1) Suc.prems(2) by simp
  moreover have "max (now + 1) (start + nat timeout) = max now (start + nat timeout)"
    using lt Suc.prems(2) by simp
  ultimately show ?case using lt cur by (subst wait_loop.simps) simp
qed

lemma wait_loop_skip:
  assumes "now \<le> u" and "int u - int start < timeout"
    and "\<forall>v. now \<le> v \<and> v < u \<longrightarrow> (\<exists>cur. list_mp4s w v d = Inr cur \<and> new_files_of cur known = [])"
  shows "wait_loop w d known timeout start now = wait_loop w d known timeout start u"
  using assms
proof (induction "u - now" arbitrary: now)
  case 0
  then show ?case by simp
next
  case (Suc n)
  then have lt: "now < u" by simp
  then have "int now - int start < timeout" using Suc.prems(2) by simp
  moreover obtain cur where "list_mp4s w now d = Inr cur" "new_files_of cur known = []"
    using Suc.prems(3) lt by auto
  ultimately have "wait_loop w d known timeout start now = wait_loop w d known timeout start (now + 1)"
    by (subst wait_loop.simps) simp
  moreover have "wait_loop w d known timeout start (now + 1) = wait_loop w d known timeout start u"
    using Suc.hyps Suc.prems lt by (intro Suc.hyps(1)) auto
  ultimately show ?case by simp
qed

lemma wait_loop_candidate:
  assumes "int u - int start < timeout" and "list_mp4s w u d = Inr cur"
    and "new_files_of cur known \<noteq> []" and "newest w u (new_files_of cur known) = Inr c"
  shows "wait_loop w d known timeout start u =
     (case stabilize w c (- 1) 0 u of
        None \<Rightarrow> None
      | Some (Inl e, t) \<Rightarrow> Some (Inl e, t)
      | Some (Inr last_size, t) \<Rightarrow> Some (Inr c, t))"
  using assms by (subst wait_loop.simps) simp

lemma wait_detected:
  assumes "detected_at w d known now u c" and "int u - int now < timeout"
  shows "wait_for_new_video w d known timeout now =
     (case stabilize w c (- 1) 0 u of
        None \<Rightarrow> None
      | Some (Inl e, t) \<Rightarrow> Some (Inl e, t)
      | Some (Inr last_size, t) \<Rightarrow> Some (Inr c, t))"
proof -
  from assms(1) obtain cur where a: "now \<le> u"
    and b: "\<forall>v. now \<le> v \<and> v < u \<longrightarrow> (\<exists>cur. list_mp4s w v d = Inr cur \<and> new_files_of cur known = [])"
    and c: "list_mp4s w u d = Inr cur" "new_files_of cur known \<noteq> []"
       "newest w u (new_files_of cur known) = Inr c"
    unfolding detected_at_def by blast
  have "wait_loop w d known timeout now now = wait_loop w d known timeout now u"
    using a assms(2) b by (rule wait_loop_skip)
  then show ?thesis
    using wait_loop_candidate[OF assms(2) c] by (simp add: wait_for_new_video_def)
qed

lemma wait_diverges:
  assumes "detected_at w d known now u c" and "int u - int now < timeout"
    and "sizes_plain w c" and "readable_or_missing w c" and "never_stable w c"
  shows "wait_for_new_video w d known timeout now = None"
  using wait_detected[OF assms(1,2)] stabilize_never[OF assms(3,4,5)] by simp

lemma wait_times_out:
  assumes "\<forall>u. now \<le> u \<and> int u - int now < timeout \<longrightarrow>
             (\<exists>cur. list_mp4s w u d = Inr cur \<and> new_files_of cur known = [])"
  shows "wait_for_new_video w d known timeout now = Some (Inl (TimeoutError d timeout), now + nat timeout)"
  using wait_loop_timeout[OF assms] by (simp add: wait_for_new_video_def)

lemma sample_listing: "list_mp4s (sample_world sizes cr) u ''out'' = Inr [''out/F.mp4'', ''out/old.MP4'']"
proof -
  have "map (path_join ''out'') (filter (\<lambda>f. endswith (lower f) ''.mp4'') [''F.mp4'', ''notes.txt'', ''old.MP4''])
      = [''out/F.mp4'', ''out/old.MP4'']" by code_simp
  then show ?thesis by (simp add: list_mp4s_def sample_world_def)
qed

lemma sample_detected:
  "detected_at (sample_world sizes cr) ''out'' {''out/old.MP4''} 0 0 ''out/F.mp4''"
proof -
  have n: "new_files_of [''out/F.mp4'', ''out/old.MP4''] {''out/old.MP4''} = [''out/F.mp4'']"
    by (simp add: new_files_of_def)
  have "newest (sample_world sizes cr) 0 [''out/F.mp4''] = Inr ''out/F.mp4''"
    by (simp add: newest_def sample_world_def)
  then show ?thesis using n by (simp add: detected_at_def sample_listing)
qed

lemma growing_never_stable: "never_stable (sample_world (\<lambda>t. Inr (int t)) cr) c"
proof -
  have "\<exists>k<4. int (u + k) \<noteq> s" for u s
  proof (cases "int u = s")
    case True
    then have "int (u + 1) \<noteq> s" by simp
    then show ?thesis by (intro exI[of _ 1]) simp
  next
    case False
    then show ?thesis by (intro exI[of _ 0]) simp
  qed
  then show ?thesis by (simp add: never_stable_def sample_world_def)
qed

text \<open>
  Claim C1 as stated: a candidate whose size never stabilises is to give a timeout error.
  In a world where \<open>F.mp4\<close> is new at the first poll and its size is the time of the
  sample, so that no two samples are equal, the call with a timeout of five seconds never
  returns: it raises no timeout error.
\<close>

theorem wait_for_new_video_unstable_counterexample:
  "wait_for_new_video (sample_world (\<lambda>t. Inr (int t)) None) ''out'' {''out/old.MP4''} 5 0 = None"
proof -
  have "sizes_plain (sample_world (\<lambda>t. Inr (int t)) None) ''out/F.mp4''"
    by (auto simp: sizes_plain_def sample_world_def)
  moreover have "readable_or_missing (sample_world (\<lambda>t. Inr (int t)) None) ''out/F.mp4''"
    by (simp add: readable_or_missing_def sample_world_def)
  ultimately show ?thesis
    using wait_diverges[OF sample_detected, of 5] growing_never_stable by simp
qed

text \<open>
  Claim C1, amended.  The timeout covers the search for a new file only.  When no poll
  from the start until \<open>timeoutSeconds\<close> have passed sees a new file, the call ends, at
  that time, with a timeout error that carries the directory and the timeout.  Once a
  poll before the timeout has picked a candidate, the stabilisation loop runs without a
  time limit: when the candidate's size never reaches four equal samples in a row (each
  sample being a size or a passing \<open>FileNotFoundError\<close>), the call never returns.
\<close>

theorem wait_for_new_video_timeout_covers_search_only:
  "((\<forall>u. now \<le> u \<and> int u - int now < timeout \<longrightarrow>
        (\<exists>cur. list_mp4s w u output_dir = Inr cur \<and> new_files_of cur known_files = []))
     \<longrightarrow> wait_for_new_video w output_dir known_files timeout now
           = Some (Inl (TimeoutError output_dir timeout), now + nat timeout))
   \<and> (detected_at w output_dir known_files now u candidate \<and> int u - int now < timeout
       \<and> sizes_plain w candidate \<and> readable_or_missing w candidate \<and> never_stable w candidate
     \<longrightarrow> wait_for_new_video w output_dir known_files timeout now = None)"
  using wait_times_out wait_diverges by blast

theorem wait_for_new_video_timeout_covers_search_only_witness:
  "wait_for_new_video (sample_world (\<lambda>t. Inr 100) None) ''out'' {''out/old.MP4'', ''out/F.mp4''} 5 0
      = Some (Inl (TimeoutError ''out'' 5), 5)
   \<and> detected_at (sample_world (\<lambda>t. Inr (2 * int t)) None) ''out'' {''out/old.MP4''} 0 0 ''out/F.mp4''
   \<and> wait_for_new_video (sample_world (\<lambda>t. Inr (2 * int t)) None) ''out'' {''out/old.MP4''} 5 0 = None"
proof -
  let ?w = "sample_world (\<lambda>t. Inr 100) None"
  let ?g = "sample_world (\<lambda>t. Inr (2 * int t)) None"
  have "new_files_of [''out/F.mp4'', ''out/old.MP4''] {''out/old.MP4'', ''out/F.mp4''} = []"
    by (simp add: new_files_of_def)
  then have a: "\<forall>u. 0 \<le> u \<and> int u - int 0 < 5 \<longrightarrow>
        (\<exists>cur. list_mp4s ?w u ''out'' = Inr cur \<and> new_files_of cur {''out/old.MP4'', ''out/F.mp4''} = [])"
    by (simp add: sample_listing)
  have b: "sizes_plain ?g ''out/F.mp4''" by (auto simp: sizes_plain_def sample_world_def)
  have c: "readable_or_missing ?g ''out/F.mp4''" by (simp add: readable_or_missing_def sample_world_def)
  have "\<exists>k<4. 2 * int (u + k) \<noteq> s" for u s
  proof (cases "2 * int u = s")
    case True
    then have "2 * int (u + 1) \<noteq> s" by simp
    then show ?thesis by (intro exI[of _ 1]) simp
  next
    case False
    then show ?thesis by (intro exI[of _ 0]) simp
  qed
  then have d: "never_stable ?g ''out/F.mp4''" by (simp add: never_stable_def sample_world_def)
  have e: "int 0 - int 0 < (5::int)" by simp
  note t = wait_for_new_video_timeout_covers_search_only[of 0 5 ?w "''out''" "{''out/old.MP4'', ''out/F.mp4''}"]
  note v = wait_for_new_video_timeout_covers_search_only[of 0 5 ?g "''out''" "{''out/old.MP4''}" 0 "''out/F.mp4''"]
  from t a have "wait_for_new_video ?w ''out'' {''out/old.MP4'', ''out/F.mp4''} 5 0
      = Some (Inl (TimeoutError ''out'' 5), 0 + nat 5)" by blast
  moreover from v sample_detected b c d e
  have "wait_for_new_video ?g ''out'' {''out/old.MP4''} 5 0 = None" by blast
  ultimately show ?thesis using sample_detected by simp
qed

text \<open>
  Claim C2 as stated: three equal samples are to be enough.  Every sample is followed by
  one second of sleep, so the time at the return counts the samples taken.  With a size
  of 100 at every sample the call returns at time 4, after four samples; with the size
  sequence 100, 100, 100 followed by 200 it has not returned after the three equal samples
  and returns at time 7, on the four samples of 200.
\<close>

theorem three_equal_samples_counterexample:
  "wait_for_new_video (sample_world (\<lambda>t. Inr 100) None) ''out'' {''out/old.MP4''} 900 0
     = Some (Inr ''out/F.mp4'', 4)
   \<and> wait_for_new_video (sample_world (\<lambda>t. Inr (if t < 3 then 100 else 200)) None) ''out''
       {''out/old.MP4''} 900 0
     = Some (Inr ''out/F.mp4'', 7)"
  by code_simp

lemma wait_returns_stable:
  assumes "wait_for_new_video w d known timeout now = Some (Inr p, t)" and "sizes_plain w p"
  shows "now + 4 \<le> t \<and> (\<exists>s. \<forall>k<4. getsize w (t - 1 - k) p = Inr s)"
proof -
  have "wait_loop w d known timeout now now = Some (Inr p, t)"
    using assms(1) by (simp add: wait_for_new_video_def)
  then obtain u s where u: "now \<le> u" and st: "stabilize w p (- 1) 0 u = Some (Inr s, t)"
    using wait_loop_returns[of w d known timeout now now "(Inr p, t)" p] by auto
  have "stab_post w p u u (Inr s, t)"
    using stabilize_result[OF st assms(2) stab_inv_start] .
  then have "u + 4 \<le> t" and "\<forall>k<4. getsize w (t - 1 - k) p = Inr s"
    by (simp_all add: stab_post_def)
  then show ?thesis using u by auto
qed

text \<open>
  Claim C2, amended.  The counter \<open>stable_count\<close> must reach 3, which takes four equal
  samples in a row: the first sets \<open>last_size\<close>, each of the next three raises the counter.
  When the poll at time \<open>u\<close> is the first to see a new file and picks \<open>candidate\<close>, and the
  four samples from \<open>u\<close> on give the same size, the call returns the candidate at time
  \<open>u + 4\<close>, after exactly these four samples.  Conversely every path the call returns was
  sampled four times in a row with one size just before the return, at least four seconds
  after the start (sizes being non-negative, as \<open>getsize\<close> gives them).
\<close>

theorem wait_for_new_video_needs_four_samples:
  "(detected_at w output_dir known_files now u candidate \<and> int u - int now < timeout
      \<and> (\<forall>k<4. getsize w (u + k) candidate = Inr s) \<and> 0 \<le> s
     \<longrightarrow> wait_for_new_video w output_dir known_files timeout now = Some (Inr candidate, u + 4))
   \<and> (wait_for_new_video w output_dir known_files timeout now = Some (Inr p, t) \<and> sizes_plain w p
     \<longrightarrow> now + 4 \<le> t \<and> (\<exists>s. \<forall>k<4. getsize w (t - 1 - k) p = Inr s))"
proof (intro conjI impI)
  assume h: "detected_at w output_dir known_files now u candidate \<and> int u - int now < timeout
      \<and> (\<forall>k<4. getsize w (u + k) candidate = Inr s) \<and> 0 \<le> s"
  then have "stabilize w candidate (- 1) 0 u = Some (Inr s, u + 4)"
    by (simp add: stabilize_four_equal)
  then show "wait_for_new_video w output_dir known_files timeout now = Some (Inr candidate, u + 4)"
    using h wait_detected[of w output_dir known_files now u candidate timeout] by simp
next
  assume "wait_for_new_video w output_dir known_files timeout now = Some (Inr p, t) \<and> sizes_plain w p"
  then show "now + 4 \<le> t" and "\<exists>s. \<forall>k<4. getsize w (t - 1 - k) p = Inr s"
    using wait_returns_stable by blast+
qed

theorem wait_for_new_video_needs_four_samples_witness:
  "detected_at (sample_world (\<lambda>t. Inr 100) None) ''out'' {''out/old.MP4''} 0 0 ''out/F.mp4''
   \<and> getsize (sample_world (\<lambda>t. Inr 100) None) 0 ''out/F.mp4'' = Inr 100
   \<and> getsize (sample_world (\<lambda>t. Inr 100) None) 1 ''out/F.mp4'' = Inr 100
   \<and> getsize (sample_world (\<lambda>t. Inr 100) None) 2 ''out/F.mp4'' = Inr 100
   \<and> getsize (sample_world (\<lambda>t. Inr 100) None) 3 ''out/F.mp4'' = Inr 100
   \<and> wait_for_new_video (sample_world (\<lambda>t. Inr 100) None) ''out'' {''out/old.MP4''} 900 0
       = Some (Inr ''out/F.mp4'', 4)
   \<and> sizes_plain (sample_world (\<lambda>t. Inr 100) None) ''out/F.mp4''
   \<and> (0::nat) + 4 \<le> 4"
proof -
  let ?w = "sample_world (\<lambda>t. Inr 100) None"
  have g: "getsize ?w u ''out/F.mp4'' = Inr 100" for u by (simp add: sample_world_def)
  then have a: "\<forall>k<4. getsize ?w (0 + k) ''out/F.mp4'' = Inr 100" by simp
  have b: "sizes_plain ?w ''out/F.mp4''" by (auto simp: sizes_plain_def sample_world_def)
  have c: "int 0 - int 0 < (900::int)" and d: "(0::int) \<le> 100" by simp_all
  note t = wait_for_new_video_needs_four_samples[where w = ?w and output_dir = "''out''"
      and known_files = "{''out/old.MP4''}" and now = 0 and u = 0 and candidate = "''out/F.mp4''"
      and timeout = 900 and s = 100 and p = "''out/F.mp4''" and t = 4]
  from t sample_detected a c d
  have "wait_for_new_video ?w ''out'' {''out/old.MP4''} 900 0 = Some (Inr ''out/F.mp4'', 0 + 4)"
    by blast
  then have r: "wait_for_new_video ?w ''out'' {''out/old.MP4''} 900 0 = Some (Inr ''out/F.mp4'', 4)"
    by simp
  from t r b have "(0::nat) + 4 \<le> 4" by blast
  then show ?thesis using sample_detected g r b by simp
qed

text \<open>
  Claim C10.  Every path that \<open>wait_for_new_video\<close> returns ends in \<open>.mp4\<close> when put in
  lower case, is not a member of the \<open>known_files\<close> passed in, and is the watch directory
  joined with a name that \<open>os.listdir\<close> gave at one of the polls and that itself ends in
  \<open>.mp4\<close> in lower case: a name with another extension is never a candidate.
\<close>

theorem wait_for_new_video_returns_new_mp4:
  "wait_for_new_video w output_dir known_files timeout now = Some (Inr p, t) \<Longrightarrow>
   endswith (lower p) ''.mp4'' \<and> p \<notin> known_files
   \<and> (\<exists>u names f. now \<le> u \<and> listdir w u output_dir = Inr names \<and> f \<in> set names
         \<and> endswith (lower f) ''.mp4'' \<and> p = path_join output_dir f)"
proof -
  assume "wait_for_new_video w output_dir known_files timeout now = Some (Inr p, t)"
  then have "wait_loop w output_dir known_files timeout now now = Some (Inr p, t)"
    by (simp add: wait_for_new_video_def)
  then obtain u cur where u: "now \<le> u" and cur: "list_mp4s w u output_dir = Inr cur"
    and nw: "newest w u (new_files_of cur known_files) = Inr p"
    using wait_loop_returns[of w output_dir known_files timeout now now "(Inr p, t)" p] by auto
  have "p \<in> set (new_files_of cur known_files)" using nw by (rule newest_mem)
  then have mem: "p \<in> set cur" and new: "p \<notin> known_files" by (simp_all add: set_new_files_of)
  obtain names f where f: "listdir w u output_dir = Inr names" "f \<in> set names"
      "endswith (lower f) ''.mp4''" "p = path_join output_dir f"
    using list_mp4s_names[OF cur mem] by blast
  then have "endswith (lower p) ''.mp4''" by (simp add: mp4_path_join)
  then show ?thesis using new u f by blast
qed

theorem wait_for_new_video_returns_new_mp4_witness:
  "wait_for_new_video (sample_world (\<lambda>t. Inr 100) None) ''out'' {''out/old.MP4''} 900 0
       = Some (Inr ''out/F.mp4'', 4)
   \<and> endswith (lower ''out/F.mp4'') ''.mp4'' \<and> ''out/F.mp4'' \<notin> {''out/old.MP4''}
   \<and> (\<exists>u names f. 0 \<le> u \<and> listdir (sample_world (\<lambda>t. Inr 100) None) u ''out'' = Inr names
         \<and> f \<in> set names \<and> endswith (lower f) ''.mp4'' \<and> ''out/F.mp4'' = path_join ''out'' f)"
proof -
  have r: "wait_for_new_video (sample_world (\<lambda>t. Inr 100) None) ''out'' {''out/old.MP4''} 900 0
       = Some (Inr ''out/F.mp4'', 4)" by code_simp
  show ?thesis using r wait_for_new_video_returns_new_mp4[OF r] by blast
qed

subsection \<open>Scene dispatcher\<close>

lemma str_nat_small: "n < 10 \<Longrightarrow> str_nat n = [digit_char n]"
  by (subst str_nat.simps) simp

lemma str_nat_nonempty: "str_nat n \<noteq> []"
  by (subst str_nat.simps) simp

lemma str_nat_large: "10 \<le> n \<Longrightarrow> 2 \<le> length (str_nat n)"
proof -
  assume "10 \<le> n"
  then have "str_nat n = str_nat (n div 10) @ [digit_char (n mod 10)]"
    by (subst str_nat.simps) simp
  moreover have "1 \<le> length (str_nat (n div 10))"
    using str_nat_nonempty[of "n div 10"] by (cases "str_nat (n div 10)") simp_all
  ultimately show ?thesis by simp
qed

lemma scene_filename_small:
  "0 \<le> i \<Longrightarrow> i < 10 \<Longrightarrow> scene_filename i = ''scene_0'' @ str_int i @ ''.mp4''"
  by (simp add: scene_filename_def format_02d_def str_int_def zfill_def str_nat_small)

lemma scene_filename_large:
  "10 \<le> i \<Longrightarrow> scene_filename i = ''scene_'' @ str_int i @ ''.mp4''"
proof -
  assume a: "10 \<le> i"
  then have "2 \<le> length (str_nat (nat i))" by (intro str_nat_large) simp
  then show ?thesis using a by (simp add: scene_filename_def format_02d_def str_int_def zfill_def)
qed

text \<open>
  Claim C3 as stated: a failed copy is to leave the known-file set unchanged.  In a world
  where \<open>shutil.copy2\<close> raises \<open>OSError\<close>, the attempt ends with that error and the known
  set has grown by the detected path \<open>out/F.mp4\<close>.
\<close>

theorem known_before_copy_counterexample:
  "attempt_scene (sample_world (\<lambda>t. Inr 100) (Some OSError)) 1 ''robot'' ''http://a'' (JObj [])
       ''out'' ''clips'' {''out/old.MP4''} 6
     = Some (Inl OSError, {''out/old.MP4'', ''out/F.mp4''}, 10)
   \<and> {''out/old.MP4'', ''out/F.mp4''} \<noteq> {''out/old.MP4''}"
proof -
  have "attempt_scene (sample_world (\<lambda>t. Inr 100) (Some OSError)) 1 ''robot'' ''http://a'' (JObj [])
       ''out'' ''clips'' {''out/old.MP4''} 6
     = Some (Inl OSError, {''out/old.MP4'', ''out/F.mp4''}, 10)" by code_simp
  moreover have "{''out/old.MP4'', ''out/F.mp4''} \<noteq> {''out/old.MP4''}" by simp
  ultimately show ?thesis by simp
qed

text \<open>
  Claim C3, amended.  Within one attempt the detected path is marked as known as soon as
  \<open>wait_for_new_video\<close> has returned it, before the destination directory is made and
  before the copy: whatever \<open>os.makedirs\<close> and \<open>shutil.copy2\<close> do, the known set after the
  attempt is the set before it with the detected path added.  The copy goes to
  \<open>output_dir\<close> joined with \<open>scene_NN.mp4\<close>, the index padded with zeros to two digits, and
  the attempt returns that path when the copy succeeds and raises the error of
  \<open>makedirs\<close> or of the copy otherwise.  An attempt that fails before a file is
  detected (the submission or the detection raises) leaves the known set unchanged.
\<close>

theorem attempt_marks_known_before_copy:
  "(submit_prompt w now comfy_url (inject_scene_prompt base_workflow scene_prompt) = None
     \<and> wait_for_new_video w comfy_output_dir known_files 900 now = Some (Inr video_path, t)
    \<longrightarrow> (\<exists>r. attempt_scene w scene_index scene_prompt comfy_url base_workflow comfy_output_dir
                output_dir known_files now = Some (r, insert video_path known_files, t)
          \<and> (makedirs w t output_dir = None
               \<and> copy2 w t video_path (path_join output_dir (scene_filename scene_index)) = None
              \<longrightarrow> r = Inr (path_join output_dir (scene_filename scene_index)))
          \<and> (\<forall>e. makedirs w t output_dir = None
               \<and> copy2 w t video_path (path_join output_dir (scene_filename scene_index)) = Some e
              \<longrightarrow> r = Inl e)
          \<and> (\<forall>e. makedirs w t output_dir = Some e \<longrightarrow> r = Inl e)))
   \<and> (\<forall>e. submit_prompt w now comfy_url (inject_scene_prompt base_workflow scene_prompt) = Some e
        \<longrightarrow> attempt_scene w scene_index scene_prompt comfy_url base_workflow comfy_output_dir
              output_dir known_files now = Some (Inl e, known_files, now))
   \<and> (\<forall>e t'. submit_prompt w now comfy_url (inject_scene_prompt base_workflow scene_prompt) = None
        \<and> wait_for_new_video w comfy_output_dir known_files 900 now = Some (Inl e, t')
        \<longrightarrow> attempt_scene w scene_index scene_prompt comfy_url base_workflow comfy_output_dir
              output_dir known_files now = Some (Inl e, known_files, t'))
   \<and> (0 \<le> scene_index \<and> scene_index < 10
        \<longrightarrow> scene_filename scene_index = ''scene_0'' @ str_int scene_index @ ''.mp4'')
   \<and> (10 \<le> scene_index \<longrightarrow> scene_filename scene_index = ''scene_'' @ str_int scene_index @ ''.mp4'')"
proof (intro conjI allI impI)
  assume h: "submit_prompt w now comfy_url (inject_scene_prompt base_workflow scene_prompt) = None
     \<and> wait_for_new_video w comfy_output_dir known_files 900 now = Some (Inr video_path, t)"
  let ?dest = "path_join output_dir (scene_filename scene_index)"
  let ?r = "case makedirs w t output_dir of Some e \<Rightarrow> Inl e
            | None \<Rightarrow> (case copy2 w t video_path ?dest of Some e \<Rightarrow> Inl e | None \<Rightarrow> Inr ?dest)"
  have "attempt_scene w scene_index scene_prompt comfy_url base_workflow comfy_output_dir
                output_dir known_files now = Some (?r, insert video_path known_files, t)"
    using h by (simp add: attempt_scene_def split: option.split)
  then show "\<exists>r. attempt_scene w scene_index scene_prompt comfy_url base_workflow comfy_output_dir
                output_dir known_files now = Some (r, insert video_path known_files, t)
          \<and> (makedirs w t output_dir = None \<and> copy2 w t video_path ?dest = None \<longrightarrow> r = Inr ?dest)
          \<and> (\<forall>e. makedirs w t output_dir = None \<and> copy2 w t video_path ?dest = Some e \<longrightarrow> r = Inl e)
          \<and> (\<forall>e. makedirs w t output_dir = Some e \<longrightarrow> r = Inl e)"
    by (intro exI[of _ ?r]) simp
next
  fix e
  assume "submit_prompt w now comfy_url (inject_scene_prompt base_workflow scene_prompt) = Some e"
  then show "attempt_scene w scene_index scene_prompt comfy_url base_workflow comfy_output_dir
              output_dir known_files now = Some (Inl e, known_files, now)"
    by (simp add: attempt_scene_def)
next
  fix e t'
  assume "submit_prompt w now comfy_url (inject_scene_prompt base_workflow scene_prompt) = None
        \<and> wait_for_new_video w comfy_output_dir known_files 900 now = Some (Inl e, t')"
  then show "attempt_scene w scene_index scene_prompt comfy_url base_workflow comfy_output_dir
              output_dir known_files now = Some (Inl e, known_files, t')"
    by (simp add: attempt_scene_def)
next
  assume "0 \<le> scene_index \<and> scene_index < 10"
  then show "scene_filename scene_index = ''scene_0'' @ str_int scene_index @ ''.mp4''"
    by (simp add: scene_filename_small)
next
  assume "10 \<le> scene_index"
  then show "scene_filename scene_index = ''scene_'' @ str_int scene_index @ ''.mp4''"
    by (rule scene_filename_large)
qed

theorem attempt_marks_known_before_copy_witness:
  "submit_prompt (sample_world (\<lambda>t. Inr 100) (Some OSError)) 6 ''http://a''
       (inject_scene_prompt (JObj []) ''robot'') = None
   \<and> wait_for_new_video (sample_world (\<lambda>t. Inr 100) (Some OSError)) ''out'' {''out/old.MP4''} 900 6
       = Some (Inr ''out/F.mp4'', 10)
   \<and> attempt_scene (sample_world (\<lambda>t. Inr 100) (Some OSError)) 1 ''robot'' ''http://a'' (JObj [])
       ''out'' ''clips'' {''out/old.MP4''} 6
       = Some (Inl OSError, insert ''out/F.mp4'' {''out/old.MP4''}, 10)
   \<and> attempt_scene (sample_world (\<lambda>t. Inr 100) None) 1 ''robot'' ''http://a'' (JObj [])
       ''out'' ''clips'' {''out/old.MP4''} 6
       = Some (Inr ''clips/scene_01.mp4'', insert ''out/F.mp4'' {''out/old.MP4''}, 10)
   \<and> scene_filename 1 = ''scene_01.mp4''"
proof -
  let ?w = "sample_world (\<lambda>t. Inr 100) (Some OSError)"
  let ?v = "sample_world (\<lambda>t. Inr 100) None"
  have s: "submit_prompt ?w 6 ''http://a'' (inject_scene_prompt (JObj []) ''robot'') = None"
    by code_simp
  have s': "submit_prompt ?v 6 ''http://a'' (inject_scene_prompt (JObj []) ''robot'') = None"
    by code_simp
  have d: "wait_for_new_video ?w ''out'' {''out/old.MP4''} 900 6 = Some (Inr ''out/F.mp4'', 10)"
    by code_simp
  have d': "wait_for_new_video ?v ''out'' {''out/old.MP4''} 900 6 = Some (Inr ''out/F.mp4'', 10)"
    by code_simp
  have m: "makedirs ?w 10 ''clips'' = None"
    and c: "copy2 ?w 10 ''out/F.mp4'' (path_join ''clips'' (scene_filename 1)) = Some OSError"
    by (simp_all add: sample_world_def)
  have m': "makedirs ?v 10 ''clips'' = None"
    and c': "copy2 ?v 10 ''out/F.mp4'' (path_join ''clips'' (scene_filename 1)) = None"
    by (simp_all add: sample_world_def)
  have one: "str_int 1 = ''1''" by code_simp
  have pj: "path_join ''clips'' ''scene_01.mp4'' = ''clips/scene_01.mp4''" by code_simp
  note t = attempt_marks_known_before_copy[of ?w 6 "''http://a''" "JObj []" "''robot''" "''out''"
      "{''out/old.MP4''}" "''out/F.mp4''" 10 1 "''clips''"]
  note t' = attempt_marks_known_before_copy[of ?v 6 "''http://a''" "JObj []" "''robot''" "''out''"
      "{''out/old.MP4''}" "''out/F.mp4''" 10 1 "''clips''"]
  from t have fn: "scene_filename 1 = ''scene_0'' @ str_int 1 @ ''.mp4''" by simp
  then have fn': "scene_filename 1 = ''scene_01.mp4''" using one by simp
  from t s d obtain r where r: "attempt_scene ?w 1 ''robot'' ''http://a'' (JObj []) ''out'' ''clips''
        {''out/old.MP4''} 6 = Some (r, insert ''out/F.mp4'' {''out/old.MP4''}, 10)"
      "\<forall>e. makedirs ?w 10 ''clips'' = None
         \<and> copy2 ?w 10 ''out/F.mp4'' (path_join ''clips'' (scene_filename 1)) = Some e \<longrightarrow> r = Inl e"
    by blast
  then have "r = Inl OSError" using m c by blast
  with r(1) have a: "attempt_scene ?w 1 ''robot'' ''http://a'' (JObj []) ''out'' ''clips''
        {''out/old.MP4''} 6 = Some (Inl OSError, insert ''out/F.mp4'' {''out/old.MP4''}, 10)" by simp
  from t' s' d' obtain r' where r': "attempt_scene ?v 1 ''robot'' ''http://a'' (JObj []) ''out'' ''clips''
        {''out/old.MP4''} 6 = Some (r', insert ''out/F.mp4'' {''out/old.MP4''}, 10)"
      "makedirs ?v 10 ''clips'' = None
         \<and> copy2 ?v 10 ''out/F.mp4'' (path_join ''clips'' (scene_filename 1)) = None
       \<longrightarrow> r' = Inr (path_join ''clips'' (scene_filename 1))"
    by blast
  then have "r' = Inr ''clips/scene_01.mp4''" using m' c' fn' pj by simp
  with r'(1) have b: "attempt_scene ?v 1 ''robot'' ''http://a'' (JObj []) ''out'' ''clips''
        {''out/old.MP4''} 6 = Some (Inr ''clips/scene_01.mp4'', insert ''out/F.mp4'' {''out/old.MP4''}, 10)"
    by simp
  show ?thesis using s d a b fn' by simp
qed

lemma retry_loop_after_failures:
  "after_failures w si sp url bw cdir odir n K now = Some (K1, t1) \<Longrightarrow> a + int n \<le> m \<Longrightarrow>
   retry_loop w si sp url bw cdir odir m [a..m] K now
     = retry_loop w si sp url bw cdir odir m [a + int n..m] K1 t1"
proof (induction n arbitrary: a K now)
  case 0
  then show ?case by simp
next
  case (Suc n)
  from Suc.prems(1) obtain e K' t' where
    att: "attempt_scene w si sp url bw cdir odir K now = Some (Inl e, K', t')"
    and rest: "after_failures w si sp url bw cdir odir n K' (t' + 3) = Some (K1, t1)"
    by (auto split: option.splits sum.splits prod.splits)
  have lt: "a < m" using Suc.prems(2) by simp
  then have "[a..m] = a # [a + 1..m]" by (simp add: upto_rec1)
  then have "retry_loop w si sp url bw cdir odir m [a..m] K now
      = retry_loop w si sp url bw cdir odir m [a + 1..m] K' (t' + 3)"
    using att lt by simp
  also have "\<dots> = retry_loop w si sp url bw cdir odir m [a + 1 + int n..m] K1 t1"
    using Suc.IH[OF rest, of "a + 1"] Suc.prems(2) by simp
  also have "a + 1 + int n = a + int (Suc n)" by simp
  finally show ?case .
qed

lemma after_failures_Suc:
  "after_failures w si sp url bw cdir odir k K u = Some (K1, t1) \<Longrightarrow>
   attempt_scene w si sp url bw cdir odir K1 t1 = Some (Inl e, K2, t2) \<Longrightarrow>
   after_failures w si sp url bw cdir odir (Suc k) K u = Some (K2, t2 + 3)"
proof (induction k arbitrary: K u)
  case 0
  then show ?case by simp
next
  case (Suc k)
  from Suc.prems(1) obtain e' K' t' where
    att: "attempt_scene w si sp url bw cdir odir K u = Some (Inl e', K', t')"
    and rest: "after_failures w si sp url bw cdir odir k K' (t' + 3) = Some (K1, t1)"
    by (auto split: option.splits sum.splits prod.splits)
  have "after_failures w si sp url bw cdir odir (Suc k) K' (t' + 3) = Some (K2, t2 + 3)"
    using Suc.IH[OF rest Suc.prems(2)] .
  moreover have "after_failures w si sp url bw cdir odir (Suc (Suc k)) K u
      = after_failures w si sp url bw cdir odir (Suc k) K' (t' + 3)"
    using att by (subst after_failures.simps(2)) simp
  ultimately show ?case by simp
qed

text \<open>
  Claim C6.  Every exception of an attempt is caught.  Let the first \<open>n\<close> attempts of a
  dispatch have raised, each followed by a sleep of 3 seconds, every attempt being made
  with the same scene index, prompt, endpoint, workflow and directories.  If attempt
  \<open>n + 1 \<le> max_retries\<close> then succeeds, the dispatch returns its destination path at once,
  whatever attempts are left (\<open>n = 2\<close>, \<open>max_retries = 4\<close>: failures on attempts 1 and 2,
  success on attempt 3).  If attempt \<open>n + 1 = max_retries\<close> raises as well, the dispatch
  raises that last error, without a further sleep.  If attempt \<open>n + 1 < max_retries\<close>
  raises, the dispatch sleeps 3 seconds and goes on with the attempts \<open>n + 2\<close> to
  \<open>max_retries\<close>.
\<close>

theorem run_scene_retry_policy:
  "(after_failures w scene_index scene_prompt comfy_url base_workflow comfy_output_dir output_dir
        n known_files now = Some (known1, t1)
      \<and> int n < max_retries
      \<and> attempt_scene w scene_index scene_prompt comfy_url base_workflow comfy_output_dir output_dir
          known1 t1 = Some (Inr dest_path, known2, t2)
     \<longrightarrow> run_scene_through_comfy w scene_index scene_prompt comfy_url base_workflow comfy_output_dir
           output_dir max_retries known_files now = Some (Inr dest_path, known2, t2))
   \<and> (after_failures w scene_index scene_prompt comfy_url base_workflow comfy_output_dir output_dir
        n known_files now = Some (known1, t1)
      \<and> int n + 1 = max_retries
      \<and> attempt_scene w scene_index scene_prompt comfy_url base_workflow comfy_output_dir output_dir
          known1 t1 = Some (Inl e, known2, t2)
     \<longrightarrow> run_scene_through_comfy w scene_index scene_prompt comfy_url base_workflow comfy_output_dir
           output_dir max_retries known_files now = Some (Inl e, known2, t2))
   \<and> (after_failures w scene_index scene_prompt comfy_url base_workflow comfy_output_dir output_dir
        n known_files now = Some (known1, t1)
      \<and> int n + 1 < max_retries
      \<and> attempt_scene w scene_index scene_prompt comfy_url base_workflow comfy_output_dir output_dir
          known1 t1 = Some (Inl e, known2, t2)
     \<longrightarrow> run_scene_through_comfy w scene_index scene_prompt comfy_url base_workflow comfy_output_dir
           output_dir max_retries known_files now
         = retry_loop w scene_index scene_prompt comfy_url base_workflow comfy_output_dir output_dir
             max_retries [int n + 2..max_retries] known2 (t2 + 3))"
proof (intro conjI impI)
  assume h: "after_failures w scene_index scene_prompt comfy_url base_workflow comfy_output_dir output_dir
        n known_files now = Some (known1, t1)
      \<and> int n < max_retries
      \<and> attempt_scene w scene_index scene_prompt comfy_url base_workflow comfy_output_dir output_dir
          known1 t1 = Some (Inr dest_path, known2, t2)"
  then have "[1 + int n..max_retries] = (1 + int n) # [1 + int n + 1..max_retries]"
    by (simp add: upto_rec1)
  then have "retry_loop w scene_index scene_prompt comfy_url base_workflow comfy_output_dir output_dir
       max_retries [1 + int n..max_retries] known1 t1 = Some (Inr dest_path, known2, t2)"
    using h by simp
  moreover have "retry_loop w scene_index scene_prompt comfy_url base_workflow comfy_output_dir output_dir
       max_retries [1..max_retries] known_files now
     = retry_loop w scene_index scene_prompt comfy_url base_workflow comfy_output_dir output_dir
       max_retries [1 + int n..max_retries] known1 t1"
    using h by (intro retry_loop_after_failures) auto
  ultimately show "run_scene_through_comfy w scene_index scene_prompt comfy_url base_workflow
       comfy_output_dir output_dir max_retries known_files now = Some (Inr dest_path, known2, t2)"
    by (simp add: run_scene_through_comfy_def)
next
  assume h: "after_failures w scene_index scene_prompt comfy_url base_workflow comfy_output_dir output_dir
        n known_files now = Some (known1, t1)
      \<and> int n + 1 = max_retries
      \<and> attempt_scene w scene_index scene_prompt comfy_url base_workflow comfy_output_dir output_dir
          known1 t1 = Some (Inl e, known2, t2)"
  then have "[1 + int n..max_retries] = (1 + int n) # [1 + int n + 1..max_retries]"
    by (simp add: upto_rec1)
  then have "retry_loop w scene_index scene_prompt comfy_url base_workflow comfy_output_dir output_dir
       max_retries [1 + int n..max_retries] known1 t1 = Some (Inl e, known2, t2)"
    using h by auto
  moreover have "retry_loop w scene_index scene_prompt comfy_url base_workflow comfy_output_dir output_dir
       max_retries [1..max_retries] known_files now
     = retry_loop w scene_index scene_prompt comfy_url base_workflow comfy_output_dir output_dir
       max_retries [1 + int n..max_retries] known1 t1"
    using h by (intro retry_loop_after_failures) auto
  ultimately show "run_scene_through_comfy w scene_index scene_prompt comfy_url base_workflow
       comfy_output_dir output_dir max_retries known_files now = Some (Inl e, known2, t2)"
    by (simp add: run_scene_through_comfy_def)
next
  assume h: "after_failures w scene_index scene_prompt comfy_url base_workflow comfy_output_dir output_dir
        n known_files now = Some (known1, t1)
      \<and> int n + 1 < max_retries
      \<and> attempt_scene w scene_index scene_prompt comfy_url base_workflow comfy_output_dir output_dir
          known1 t1 = Some (Inl e, known2, t2)"
  then have "after_failures w scene_index scene_prompt comfy_url base_workflow comfy_output_dir output_dir
        (Suc n) known_files now = Some (known2, t2 + 3)"
    by (intro after_failures_Suc[where ?K1.0 = known1 and ?t1.0 = t1 and e = e]) auto
  moreover have "1 + int (Suc n) \<le> max_retries" using h by simp
  ultimately have "retry_loop w scene_index scene_prompt comfy_url base_workflow comfy_output_dir output_dir
       max_retries [1..max_retries] known_files now
     = retry_loop w scene_index scene_prompt comfy_url base_workflow comfy_output_dir output_dir
       max_retries [1 + int (Suc n)..max_retries] known2 (t2 + 3)"
    by (rule retry_loop_after_failures)
  moreover have "1 + int (Suc n) = int n + 2" by simp
  ultimately show "run_scene_through_comfy w scene_index scene_prompt comfy_url base_workflow comfy_output_dir
           output_dir max_retries known_files now
         = retry_loop w scene_index scene_prompt comfy_url base_workflow comfy_output_dir output_dir
             max_retries [int n + 2..max_retries] known2 (t2 + 3)"
    by (simp add: run_scene_through_comfy_def add.commute)
qed

theorem run_scene_retry_policy_witness:
  "after_failures (sample_world (\<lambda>t. Inr 100) None) 1 ''robot'' ''http://a'' (JObj [])
       ''out'' ''clips'' 2 {''out/old.MP4''} 0 = Some ({''out/old.MP4''}, 6)
   \<and> run_scene_through_comfy (sample_world (\<lambda>t. Inr 100) None) 1 ''robot'' ''http://a'' (JObj [])
       ''out'' ''clips'' 4 {''out/old.MP4''} 0
       = Some (Inr ''clips/scene_01.mp4'', insert ''out/F.mp4'' {''out/old.MP4''}, 10)
   \<and> after_failures (sample_world (\<lambda>t. Inr 100) None) 1 ''robot'' ''http://a'' (JObj [])
       ''out'' ''clips'' 1 {''out/old.MP4''} 0 = Some ({''out/old.MP4''}, 3)
   \<and> run_scene_through_comfy (sample_world (\<lambda>t. Inr 100) None) 1 ''robot'' ''http://a'' (JObj [])
       ''out'' ''clips'' 2 {''out/old.MP4''} 0
       = Some (Inl ConnectionError, {''out/old.MP4''}, 3)
   \<and> run_scene_through_comfy (sample_world (\<lambda>t. Inr 100) None) 1 ''robot'' ''http://a'' (JObj [])
       ''out'' ''clips'' 4 {''out/old.MP4''} 0
       = retry_loop (sample_world (\<lambda>t. Inr 100) None) 1 ''robot'' ''http://a'' (JObj [])
           ''out'' ''clips'' 4 [2..4] {''out/old.MP4''} 3"
proof -
  let ?w = "sample_world (\<lambda>t. Inr 100) None"
  have f2: "after_failures ?w 1 ''robot'' ''http://a'' (JObj []) ''out'' ''clips'' 2 {''out/old.MP4''} 0
      = Some ({''out/old.MP4''}, 6)" by code_simp
  have f1: "after_failures ?w 1 ''robot'' ''http://a'' (JObj []) ''out'' ''clips'' 1 {''out/old.MP4''} 0
      = Some ({''out/old.MP4''}, 3)" by code_simp
  have f0: "after_failures ?w 1 ''robot'' ''http://a'' (JObj []) ''out'' ''clips'' 0 {''out/old.MP4''} 0
      = Some ({''out/old.MP4''}, 0)" by simp
  have a0: "attempt_scene ?w 1 ''robot'' ''http://a'' (JObj []) ''out'' ''clips'' {''out/old.MP4''} 0
      = Some (Inl (HTTPError 500), {''out/old.MP4''}, 0)" by code_simp
  have a3: "attempt_scene ?w 1 ''robot'' ''http://a'' (JObj []) ''out'' ''clips'' {''out/old.MP4''} 3
      = Some (Inl ConnectionError, {''out/old.MP4''}, 3)" by code_simp
  have a6: "attempt_scene ?w 1 ''robot'' ''http://a'' (JObj []) ''out'' ''clips'' {''out/old.MP4''} 6
      = Some (Inr ''clips/scene_01.mp4'', insert ''out/F.mp4'' {''out/old.MP4''}, 10)" by code_simp
  have n2: "int 2 < (4::int)" and n1: "int 1 + 1 = (2::int)" and n0: "int 0 + 1 < (4::int)" by simp_all
  note p = run_scene_retry_policy[where w = ?w and scene_index = 1 and scene_prompt = "''robot''"
      and comfy_url = "''http://a''" and base_workflow = "JObj []" and comfy_output_dir = "''out''"
      and output_dir = "''clips''" and n = 2 and known_files = "{''out/old.MP4''}" and now = 0
      and ?known1.0 = "{''out/old.MP4''}" and ?t1.0 = 6 and max_retries = 4
      and dest_path = "''clips/scene_01.mp4''"
      and ?known2.0 = "insert ''out/F.mp4'' {''out/old.MP4''}" and ?t2.0 = 10]
  note q = run_scene_retry_policy[where w = ?w and scene_index = 1 and scene_prompt = "''robot''"
      and comfy_url = "''http://a''" and base_workflow = "JObj []" and comfy_output_dir = "''out''"
      and output_dir = "''clips''" and n = 1 and known_files = "{''out/old.MP4''}" and now = 0
      and ?known1.0 = "{''out/old.MP4''}" and ?t1.0 = 3 and max_retries = 2
      and e = ConnectionError and ?known2.0 = "{''out/old.MP4''}" and ?t2.0 = 3]
  note r = run_scene_retry_policy[where w = ?w and scene_index = 1 and scene_prompt = "''robot''"
      and comfy_url = "''http://a''" and base_workflow = "JObj []" and comfy_output_dir = "''out''"
      and output_dir = "''clips''" and n = 0 and known_files = "{''out/old.MP4''}" and now = 0
      and ?known1.0 = "{''out/old.MP4''}" and ?t1.0 = 0 and max_retries = 4
      and e = "HTTPError 500" and ?known2.0 = "{''out/old.MP4''}" and ?t2.0 = 0]
  from p f2 n2 a6 have s: "run_scene_through_comfy ?w 1 ''robot'' ''http://a'' (JObj [])
       ''out'' ''clips'' 4 {''out/old.MP4''} 0
       = Some (Inr ''clips/scene_01.mp4'', insert ''out/F.mp4'' {''out/old.MP4''}, 10)" by blast
  from q f1 n1 a3 have l: "run_scene_through_comfy ?w 1 ''robot'' ''http://a'' (JObj [])
       ''out'' ''clips'' 2 {''out/old.MP4''} 0 = Some (Inl ConnectionError, {''out/old.MP4''}, 3)"
    by blast
  from r f0 n0 a0 have "run_scene_through_comfy ?w 1 ''robot'' ''http://a'' (JObj [])
       ''out'' ''clips'' 4 {''out/old.MP4''} 0
       = retry_loop ?w 1 ''robot'' ''http://a'' (JObj []) ''out'' ''clips'' 4 [int 0 + 2..4]
           {''out/old.MP4''} (0 + 3)" by blast
  then have m: "run_scene_through_comfy ?w 1 ''robot'' ''http://a'' (JObj [])
       ''out'' ''clips'' 4 {''out/old.MP4''} 0
       = retry_loop ?w 1 ''robot'' ''http://a'' (JObj []) ''out'' ''clips'' 4 [2..4]
           {''out/old.MP4''} 3" by simp
  show ?thesis using f2 s f1 l m by blast
qed

end
